theory Spec2Isabelle
  imports Main "HOL-Library.AList"
begin

section \<open>The xds_cluster_manager load-balancing policy\<close>

text \<open>
  A shallow embedding of \<^verbatim>\<open>xds_cluster_manager.cc\<close>: the policy
  \<^verbatim>\<open>XdsClusterManagerLb\<close>, its per-cluster \<^verbatim>\<open>ClusterChild\<close> objects and the
  call-time \<^verbatim>\<open>ClusterPicker\<close>. Field and function names are the source's, without the
  trailing underscore of the C++ members.
\<close>

subsection \<open>Connectivity states, statuses and pick results\<close>

datatype grpc_connectivity_state =
    GRPC_CHANNEL_IDLE
  | GRPC_CHANNEL_CONNECTING
  | GRPC_CHANNEL_READY
  | GRPC_CHANNEL_TRANSIENT_FAILURE
  | GRPC_CHANNEL_SHUTDOWN

datatype StatusCode = kOk | kCancelled | kInternal | kUnavailable

text \<open>An \<^verbatim>\<open>absl::Status\<close>: a code and a message; the default-constructed one is OK.\<close>

type_synonym Status = "StatusCode \<times> string"

definition OkStatus :: Status where
  "OkStatus = (kOk, [])"

definition InternalError :: "string \<Rightarrow> Status" where
  "InternalError msg = (kInternal, msg)"

text \<open>
  What stops a run short of returning: the abort of \<^verbatim>\<open>GPR_UNREACHABLE_CODE\<close> and the
  dereference of a null pointer.
\<close>

datatype error = UnreachableCode | NullDereference

text \<open>
  The result of a pick, as \<^verbatim>\<open>LoadBalancingPolicy::PickResult\<close> has it: a subchannel
  (here its number), a request to queue the call, a failure or a drop.
\<close>

datatype PickResult = Complete nat | Queue | Fail Status | Drop Status

text \<open>
  The call state carries the call attributes, looked up by attribute type name;
  \<^verbatim>\<open>GetCallAttribute\<close> returns an empty string view for a name that is not set.
\<close>

record PickArgs =
  path :: string
  call_state :: "(string \<times> string) list"

definition GetCallAttribute :: "(string \<times> string) list \<Rightarrow> string \<Rightarrow> string" where
  "GetCallAttribute attrs type_name =
     (case map_of attrs type_name of None \<Rightarrow> [] | Some v \<Rightarrow> v)"

text \<open>The attribute type name is declared in \<^verbatim>\<open>xds_resolver.h\<close>; no result below depends on its value.\<close>

definition XdsClusterAttributeTypeName :: string where
  "XdsClusterAttributeTypeName = ''xds_cluster_name''"

subsection \<open>Pickers\<close>

text \<open>
  A \<^verbatim>\<open>SubchannelPicker\<close> is either the \<^verbatim>\<open>QueuePicker\<close>, which queues every call, or
  a picker handed over by a child policy, of which only its \<^verbatim>\<open>Pick\<close> is known.
\<close>

datatype SubchannelPicker = QueuePicker | ChildPolicyPicker "PickArgs \<Rightarrow> PickResult"

fun SubchannelPicker_Pick :: "SubchannelPicker \<Rightarrow> PickArgs \<Rightarrow> PickResult" where
  "SubchannelPicker_Pick QueuePicker args = Queue"
| "SubchannelPicker_Pick (ChildPolicyPicker f) args = f args"

record ChildPickerWrapper =
  wrapper_name :: string
  picker :: SubchannelPicker

definition ChildPickerWrapper_Pick :: "ChildPickerWrapper \<Rightarrow> PickArgs \<Rightarrow> PickResult" where
  "ChildPickerWrapper_Pick w args = SubchannelPicker_Pick (picker w) args"

text \<open>
  \<^verbatim>\<open>ClusterPicker::ClusterMap\<close> is a \<^verbatim>\<open>std::map\<close> from cluster name to picker wrapper:
  an association list, \<^verbatim>\<open>find\<close> being \<^const>\<open>map_of\<close> and \<^verbatim>\<open>operator[]\<close> followed
  by an assignment being \<^const>\<open>AList.update\<close>.
\<close>

type_synonym ClusterPicker = "(string \<times> ChildPickerWrapper) list"

definition unknown_cluster_message :: "string \<Rightarrow> string" where
  "unknown_cluster_message cluster_name =
     ''xds cluster manager picker: unknown cluster '' @ [CHR 0x22] @ cluster_name @ [CHR 0x22]"

definition ClusterPicker_Pick :: "ClusterPicker \<Rightarrow> PickArgs \<Rightarrow> PickResult" where
  "ClusterPicker_Pick cluster_map args =
     (let cluster_name = GetCallAttribute (call_state args) XdsClusterAttributeTypeName
      in case map_of cluster_map cluster_name of
           Some w \<Rightarrow> ChildPickerWrapper_Pick w args
         | None \<Rightarrow> Fail (InternalError (unknown_cluster_message cluster_name)))"

subsection \<open>Configurations, child policies and timers\<close>

type_synonym ChannelArgs = "(string \<times> string) list"

type_synonym ServerAddressList = "string list"

text \<open>The configuration of a child policy is opaque to this policy.\<close>

type_synonym LbConfig = string

text \<open>
  \<^verbatim>\<open>XdsClusterManagerLbConfig::ClusterMap\<close>, a \<^verbatim>\<open>std::map\<close> from cluster name to child
  configuration: the list of its entries in iteration order.
\<close>

type_synonym ClusterMap = "(string \<times> LbConfig) list"

record 'c UpdateArgs =
  args_addresses :: "Status + ServerAddressList"
  args_config :: 'c
  args_args :: ChannelArgs

text \<open>
  Modelled from the spec: the child policy (\<^verbatim>\<open>ChildPolicyHandler\<close>, not part of this file),
  which exposes \<^verbatim>\<open>Update\<close>, \<^verbatim>\<open>ExitIdle\<close> and \<^verbatim>\<open>ResetConnectionBackoff\<close> and reports
  through a callback. An instance is the channel arguments it was created with and the calls
  it has received since; what it reports is an input of the operations below.
\<close>

datatype policy_call =
    PolicyUpdateLocked "LbConfig UpdateArgs"
  | PolicyExitIdleLocked
  | PolicyResetBackoffLocked

record LoadBalancingPolicy =
  policy_args :: ChannelArgs
  policy_calls :: "policy_call list"

definition LoadBalancingPolicy_call :: "policy_call \<Rightarrow> LoadBalancingPolicy \<Rightarrow> LoadBalancingPolicy" where
  "LoadBalancingPolicy_call c p = p\<lparr>policy_calls := policy_calls p @ [c]\<rparr>"

text \<open>
  Modelled from the spec: the cancellable timer (\<^verbatim>\<open>grpc_timer\<close> of \<^verbatim>\<open>iomgr/timer.h\<close>,
  not part of this file). \<^verbatim>\<open>grpc_timer_init\<close> arms a timer with a deadline in milliseconds
  and a closure. An armed timer ends in one of two ways, after which it is no longer armed
  and its closure has been called once: it expires, and the closure gets no error, or
  \<^verbatim>\<open>grpc_timer_cancel\<close> cancels it, and the closure gets a cancellation error.
  \<^verbatim>\<open>grpc_timer_cancel\<close> on a timer that is not armed does nothing; what
  \<^verbatim>\<open>grpc_timer_init\<close> does to a timer that is armed is not said, and here it sets the
  new deadline. The closure of a child's
  timer is \<^verbatim>\<open>OnDelayedRemovalTimer\<close> below, which runs nothing by itself: it hands the
  locked callback, with the error it got, to the work serializer.
\<close>

datatype grpc_timer = TimerNotArmed | TimerArmed int

definition grpc_timer_init :: "int \<Rightarrow> grpc_timer" where
  "grpc_timer_init deadline = TimerArmed deadline"

fun timer_armed :: "grpc_timer \<Rightarrow> bool" where
  "timer_armed (TimerArmed d) = True"
| "timer_armed TimerNotArmed = False"

definition GRPC_ERROR_CANCELLED :: Status where
  "GRPC_ERROR_CANCELLED = (kCancelled, ''Cancelled'')"

definition GRPC_XDS_CLUSTER_MANAGER_CHILD_RETENTION_INTERVAL_MS :: int where
  "GRPC_XDS_CLUSTER_MANAGER_CHILD_RETENTION_INTERVAL_MS = 15 * 60 * 1000"

subsection \<open>The policy and its children\<close>

record ClusterChild =
  name :: string
  child_policy :: "LoadBalancingPolicy option"
  picker_wrapper :: "ChildPickerWrapper option"
  connectivity_state :: grpc_connectivity_state
  delayed_removal_timer :: grpc_timer
  delayed_removal_timer_callback_pending :: bool
  shutdown :: bool

definition ClusterChild_new :: "string \<Rightarrow> ClusterChild" where
  "ClusterChild_new n =
     \<lparr>name = n, child_policy = None, picker_wrapper = None,
      connectivity_state = GRPC_CHANNEL_IDLE, delayed_removal_timer = TimerNotArmed,
      delayed_removal_timer_callback_pending = False, shutdown = False\<rparr>"

text \<open>What the channel's helper receives from \<^verbatim>\<open>UpdateState\<close>: state, status and picker.\<close>

type_synonym Publication = "grpc_connectivity_state \<times> Status \<times> ClusterPicker"

text \<open>
  The policy object. \<^verbatim>\<open>ClusterChild\<close> objects are reference counted and outlive their
  entry of \<^verbatim>\<open>children_\<close> while a timer or a helper holds them, so they live in a store,
  \<open>heap\<close>, a child's address being its index there; \<open>children\<close> maps a cluster name to the
  address of the child it owns. \<open>channel_control_helper\<close> is the sequence of publications
  the channel's helper has received. \<open>work_serializer\<close> holds the timer callbacks that have
  been handed to the work serializer and have not run yet: the address of the child and the
  error. A \<^verbatim>\<open>config_\<close> of \<open>None\<close> is the null pointer.
\<close>

record XdsClusterManagerLb =
  config :: "ClusterMap option"
  shutting_down :: bool
  update_in_progress :: bool
  children :: "(string \<times> nat) list"
  heap :: "ClusterChild list"
  channel_control_helper :: "Publication list"
  work_serializer :: "(nat \<times> Status) list"

definition XdsClusterManagerLb_new :: XdsClusterManagerLb where
  "XdsClusterManagerLb_new =
     \<lparr>config = None, shutting_down = False, update_in_progress = False,
      children = [], heap = [], channel_control_helper = [], work_serializer = []\<rparr>"

definition set_child :: "nat \<Rightarrow> ClusterChild \<Rightarrow> XdsClusterManagerLb \<Rightarrow> XdsClusterManagerLb" where
  "set_child self c r = r\<lparr>heap := (heap r)[self := c]\<rparr>"

text \<open>
  \<^verbatim>\<open>OnDelayedRemovalTimer\<close>, the closure of the timer of the child at \<open>self\<close>: it hands
  \<^verbatim>\<open>OnDelayedRemovalTimerLocked(error)\<close> to the work serializer.
\<close>

definition OnDelayedRemovalTimer :: "Status \<Rightarrow> nat \<Rightarrow> XdsClusterManagerLb \<Rightarrow> XdsClusterManagerLb" where
  "OnDelayedRemovalTimer err self r = r\<lparr>work_serializer := work_serializer r @ [(self, err)]\<rparr>"

text \<open>\<^verbatim>\<open>grpc_timer_cancel\<close> of the timer of the child at \<open>self\<close>.\<close>

definition grpc_timer_cancel :: "nat \<Rightarrow> XdsClusterManagerLb \<Rightarrow> XdsClusterManagerLb" where
  "grpc_timer_cancel self r =
     (if timer_armed (delayed_removal_timer (heap r ! self))
      then OnDelayedRemovalTimer GRPC_ERROR_CANCELLED self
             (set_child self ((heap r ! self)\<lparr>delayed_removal_timer := TimerNotArmed\<rparr>) r)
      else r)"

text \<open>A loop over the entries of \<^verbatim>\<open>children_\<close> that calls a method of each child.\<close>

fun for_each_child ::
  "(nat \<Rightarrow> XdsClusterManagerLb \<Rightarrow> error + XdsClusterManagerLb) \<Rightarrow> (string \<times> nat) list \<Rightarrow>
   XdsClusterManagerLb \<Rightarrow> error + XdsClusterManagerLb" where
  "for_each_child f [] r = Inr r"
| "for_each_child f ((n, a) # ps) r =
     (case f a r of Inl e \<Rightarrow> Inl e | Inr r' \<Rightarrow> for_each_child f ps r')"

subsection \<open>\<^verbatim>\<open>UpdateStateLocked\<close>\<close>

text \<open>
  The counting loop: children whose name is not in the configuration are skipped; a child in
  \<^verbatim>\<open>GRPC_CHANNEL_SHUTDOWN\<close> reaches \<^verbatim>\<open>GPR_UNREACHABLE_CODE\<close>. The counters are
  \<^verbatim>\<open>size_t\<close> and bounded by the number of children, so they are natural numbers here:
  ready, connecting, idle, transient failures.
\<close>

fun count_states ::
  "ClusterMap \<Rightarrow> ClusterChild list \<Rightarrow> (string \<times> nat) list \<Rightarrow> nat \<times> nat \<times> nat \<times> nat \<Rightarrow>
   error + nat \<times> nat \<times> nat \<times> nat" where
  "count_states cfg h [] acc = Inr acc"
| "count_states cfg h ((child_name, a) # ps) (num_ready, num_connecting, num_idle, num_tf) =
     (if map_of cfg child_name = None then
        count_states cfg h ps (num_ready, num_connecting, num_idle, num_tf)
      else if length h \<le> a then Inl NullDereference
      else case connectivity_state (h ! a) of
          GRPC_CHANNEL_READY \<Rightarrow>
            count_states cfg h ps (num_ready + 1, num_connecting, num_idle, num_tf)
        | GRPC_CHANNEL_CONNECTING \<Rightarrow>
            count_states cfg h ps (num_ready, num_connecting + 1, num_idle, num_tf)
        | GRPC_CHANNEL_IDLE \<Rightarrow>
            count_states cfg h ps (num_ready, num_connecting, num_idle + 1, num_tf)
        | GRPC_CHANNEL_TRANSIENT_FAILURE \<Rightarrow>
            count_states cfg h ps (num_ready, num_connecting, num_idle, num_tf + 1)
        | GRPC_CHANNEL_SHUTDOWN \<Rightarrow> Inl UnreachableCode)"

fun aggregated_state :: "nat \<times> nat \<times> nat \<times> nat \<Rightarrow> grpc_connectivity_state" where
  "aggregated_state (num_ready, num_connecting, num_idle, num_tf) =
     (if num_ready > 0 then GRPC_CHANNEL_READY
      else if num_connecting > 0 then GRPC_CHANNEL_CONNECTING
      else if num_idle > 0 then GRPC_CHANNEL_IDLE
      else GRPC_CHANNEL_TRANSIENT_FAILURE)"

text \<open>
  The loop that builds the picker's map from the entries of the configuration.
  \<^verbatim>\<open>children_[cluster_name]\<close> is dereferenced unguarded: a name without an entry gets a
  null one, and the dereference fails.
\<close>

fun build_cluster_map ::
  "(string \<times> nat) list \<Rightarrow> ClusterChild list \<Rightarrow> ClusterMap \<Rightarrow> ClusterPicker \<Rightarrow>
   error + ClusterPicker" where
  "build_cluster_map chs h [] cluster_map = Inr cluster_map"
| "build_cluster_map chs h ((cluster_name, c) # ps) cluster_map =
     (case map_of chs cluster_name of
        None \<Rightarrow> Inl NullDereference
      | Some a \<Rightarrow>
          if length h \<le> a then Inl NullDereference
          else
            let child_picker =
                  (case picker_wrapper (h ! a) of
                     None \<Rightarrow> \<lparr>wrapper_name = cluster_name, picker = QueuePicker\<rparr>
                   | Some w \<Rightarrow> w)
            in build_cluster_map chs h ps (AList.update cluster_name child_picker cluster_map))"

definition aggregated_status :: "grpc_connectivity_state \<Rightarrow> Status" where
  "aggregated_status st =
     (if st = GRPC_CHANNEL_TRANSIENT_FAILURE
      then (kUnavailable, ''TRANSIENT_FAILURE from XdsClusterManagerLb'')
      else OkStatus)"

definition UpdateStateLocked :: "XdsClusterManagerLb \<Rightarrow> error + XdsClusterManagerLb" where
  "UpdateStateLocked r =
     (if update_in_progress r then Inr r
      else case config r of
        None \<Rightarrow> Inl NullDereference
      | Some cfg \<Rightarrow>
          (case count_states cfg (heap r) (children r) (0, 0, 0, 0) of
             Inl e \<Rightarrow> Inl e
           | Inr counts \<Rightarrow>
               (case build_cluster_map (children r) (heap r) cfg [] of
                  Inl e \<Rightarrow> Inl e
                | Inr cluster_map \<Rightarrow>
                    Inr (r\<lparr>channel_control_helper := channel_control_helper r @
                          [(aggregated_state counts,
                            aggregated_status (aggregated_state counts),
                            cluster_map)]\<rparr>))))"

subsection \<open>\<^verbatim>\<open>ClusterChild\<close>: teardown, deactivation, the timer and the helper\<close>

text \<open>
  \<^verbatim>\<open>Orphan\<close> runs when the owning pointer of a child is destroyed (\<^verbatim>\<open>children_.clear()\<close>,
  \<^verbatim>\<open>children_.erase\<close>). It dereferences \<^verbatim>\<open>child_policy_\<close> before resetting it.
\<close>

definition ClusterChild_Orphan :: "nat \<Rightarrow> XdsClusterManagerLb \<Rightarrow> error + XdsClusterManagerLb" where
  "ClusterChild_Orphan self r =
     (if length (heap r) \<le> self then Inl NullDereference
      else
        let c = heap r ! self in
        case child_policy c of
          None \<Rightarrow> Inl NullDereference
        | Some p \<Rightarrow>
            let r1 = set_child self (c\<lparr>child_policy := None, picker_wrapper := None\<rparr>) r;
                r2 = (if delayed_removal_timer_callback_pending c
                      then grpc_timer_cancel self r1 else r1)
            in Inr (set_child self ((heap r2 ! self)\<lparr>shutdown := True\<rparr>) r2))"

definition ClusterChild_ExitIdleLocked :: "nat \<Rightarrow> XdsClusterManagerLb \<Rightarrow> error + XdsClusterManagerLb" where
  "ClusterChild_ExitIdleLocked self r =
     (if length (heap r) \<le> self then Inl NullDereference
      else
        let c = heap r ! self in
        case child_policy c of
          None \<Rightarrow> Inl NullDereference
        | Some p \<Rightarrow>
            Inr (set_child self
                  (c\<lparr>child_policy := Some (LoadBalancingPolicy_call PolicyExitIdleLocked p)\<rparr>) r))"

definition ClusterChild_ResetBackoffLocked :: "nat \<Rightarrow> XdsClusterManagerLb \<Rightarrow> error + XdsClusterManagerLb" where
  "ClusterChild_ResetBackoffLocked self r =
     (if length (heap r) \<le> self then Inl NullDereference
      else
        let c = heap r ! self in
        case child_policy c of
          None \<Rightarrow> Inl NullDereference
        | Some p \<Rightarrow>
            Inr (set_child self
                  (c\<lparr>child_policy := Some (LoadBalancingPolicy_call PolicyResetBackoffLocked p)\<rparr>) r))"

text \<open>\<open>now\<close> is \<^verbatim>\<open>ExecCtx::Get()->Now()\<close>, in milliseconds.\<close>

definition ClusterChild_DeactivateLocked ::
  "int \<Rightarrow> nat \<Rightarrow> XdsClusterManagerLb \<Rightarrow> error + XdsClusterManagerLb" where
  "ClusterChild_DeactivateLocked now self r =
     (if length (heap r) \<le> self then Inl NullDereference
      else
        let c = heap r ! self in
        if delayed_removal_timer_callback_pending c then Inr r
        else
          Inr (set_child self
                (c\<lparr>delayed_removal_timer :=
                     grpc_timer_init (now + GRPC_XDS_CLUSTER_MANAGER_CHILD_RETENTION_INTERVAL_MS),
                   delayed_removal_timer_callback_pending := True\<rparr>) r))"

text \<open>\<^verbatim>\<open>GRPC_ERROR_IS_NONE\<close> of an error handle.\<close>

definition GRPC_ERROR_IS_NONE :: "Status \<Rightarrow> bool" where
  "GRPC_ERROR_IS_NONE e = (fst e = kOk)"

text \<open>
  \<^verbatim>\<open>children_.erase(name_)\<close> removes the entry under the name, whichever child it owns,
  and destroys its owning pointer, which orphans that child.
\<close>

definition children_erase :: "string \<Rightarrow> XdsClusterManagerLb \<Rightarrow> error + XdsClusterManagerLb" where
  "children_erase n r =
     (case map_of (children r) n of
        None \<Rightarrow> Inr r
      | Some a \<Rightarrow>
          (case ClusterChild_Orphan a (r\<lparr>children := AList.delete n (children r)\<rparr>) of
             Inl e \<Rightarrow> Inl e
           | Inr r' \<Rightarrow> Inr r'))"

definition OnDelayedRemovalTimerLocked ::
  "Status \<Rightarrow> nat \<Rightarrow> XdsClusterManagerLb \<Rightarrow> error + XdsClusterManagerLb" where
  "OnDelayedRemovalTimerLocked err self r =
     (if length (heap r) \<le> self then Inl NullDereference
      else
        let c = heap r ! self;
            r1 = set_child self (c\<lparr>delayed_removal_timer_callback_pending := False\<rparr>) r
        in if GRPC_ERROR_IS_NONE err \<and> \<not> shutdown c then children_erase (name c) r1
           else Inr r1)"

text \<open>
  \<^verbatim>\<open>Helper::UpdateState\<close>, the callback of the child policy of the child at \<open>self\<close>.
\<close>

definition Helper_UpdateState ::
  "grpc_connectivity_state \<Rightarrow> Status \<Rightarrow> SubchannelPicker \<Rightarrow> nat \<Rightarrow> XdsClusterManagerLb \<Rightarrow>
   error + XdsClusterManagerLb" where
  "Helper_UpdateState state status p self r =
     (if length (heap r) \<le> self then Inl NullDereference
      else if shutting_down r then Inr r
      else
        let c = heap r ! self;
            c1 = c\<lparr>picker_wrapper := Some \<lparr>wrapper_name = name c, picker = p\<rparr>\<rparr>;
            c2 = (if connectivity_state c1 \<noteq> GRPC_CHANNEL_TRANSIENT_FAILURE \<or>
                     state = GRPC_CHANNEL_READY
                  then c1\<lparr>connectivity_state := state\<rparr> else c1)
        in UpdateStateLocked (set_child self c2 r))"

text \<open>
  What a child policy reports through its helper while it handles a call, in order: the
  policy is not part of this file, so its reports are an input.
\<close>

type_synonym Report = "grpc_connectivity_state \<times> Status \<times> SubchannelPicker"

fun child_reports :: "Report list \<Rightarrow> nat \<Rightarrow> XdsClusterManagerLb \<Rightarrow> error + XdsClusterManagerLb" where
  "child_reports [] self r = Inr r"
| "child_reports ((state, status, p) # reps) self r =
     (case Helper_UpdateState state status p self r of
        Inl e \<Rightarrow> Inl e
      | Inr r' \<Rightarrow> child_reports reps self r')"

definition CreateChildPolicyLocked :: "ChannelArgs \<Rightarrow> LoadBalancingPolicy" where
  "CreateChildPolicyLocked args = \<lparr>policy_args = args, policy_calls = []\<rparr>"

text \<open>
  \<^verbatim>\<open>ClusterChild::UpdateLocked\<close>; \<open>reps\<close> is what the child policy reports while it
  handles the forwarded update.
\<close>

definition ClusterChild_UpdateLocked ::
  "LbConfig \<Rightarrow> Status + ServerAddressList \<Rightarrow> ChannelArgs \<Rightarrow> Report list \<Rightarrow> nat \<Rightarrow>
   XdsClusterManagerLb \<Rightarrow> error + XdsClusterManagerLb" where
  "ClusterChild_UpdateLocked cfg addresses args reps self r =
     (if length (heap r) \<le> self then Inl NullDereference
      else if shutting_down r then Inr r
      else
        let r1 = (if delayed_removal_timer_callback_pending (heap r ! self)
                  then grpc_timer_cancel self
                         (set_child self
                            ((heap r ! self)\<lparr>delayed_removal_timer_callback_pending := False\<rparr>) r)
                  else r);
            c1 = heap r1 ! self;
            p = (case child_policy c1 of
                   None \<Rightarrow> CreateChildPolicyLocked args
                 | Some p \<Rightarrow> p);
            update_args = \<lparr>args_addresses = addresses, args_config = cfg, args_args = args\<rparr>;
            c2 = c1\<lparr>child_policy :=
                      Some (LoadBalancingPolicy_call (PolicyUpdateLocked update_args) p)\<rparr>
        in child_reports reps self (set_child self c2 r1))"

subsection \<open>\<^verbatim>\<open>XdsClusterManagerLb\<close>: shutdown, exit idle, reset backoff, update\<close>

definition ShutdownLocked :: "XdsClusterManagerLb \<Rightarrow> error + XdsClusterManagerLb" where
  "ShutdownLocked r =
     (case for_each_child ClusterChild_Orphan (children r) (r\<lparr>shutting_down := True\<rparr>) of
        Inl e \<Rightarrow> Inl e
      | Inr r' \<Rightarrow> Inr (r'\<lparr>children := []\<rparr>))"

definition ExitIdleLocked :: "XdsClusterManagerLb \<Rightarrow> error + XdsClusterManagerLb" where
  "ExitIdleLocked r = for_each_child ClusterChild_ExitIdleLocked (children r) r"

definition ResetBackoffLocked :: "XdsClusterManagerLb \<Rightarrow> error + XdsClusterManagerLb" where
  "ResetBackoffLocked r = for_each_child ClusterChild_ResetBackoffLocked (children r) r"

text \<open>The first loop of \<^verbatim>\<open>UpdateLocked\<close>: deactivate the children not in the new configuration.\<close>

fun deactivate_absent ::
  "int \<Rightarrow> ClusterMap \<Rightarrow> (string \<times> nat) list \<Rightarrow> XdsClusterManagerLb \<Rightarrow>
   error + XdsClusterManagerLb" where
  "deactivate_absent now cfg [] r = Inr r"
| "deactivate_absent now cfg ((n, a) # ps) r =
     (if map_of cfg n = None then
        (case ClusterChild_DeactivateLocked now a r of
           Inl e \<Rightarrow> Inl e
         | Inr r' \<Rightarrow> deactivate_absent now cfg ps r')
      else deactivate_absent now cfg ps r)"

text \<open>
  The second loop: \<^verbatim>\<open>children_[name]\<close> finds the child or makes a null entry, which is
  filled with a new child at once (a new object is stored at the end of the store); then the
  child is updated. \<open>reps n\<close> is what the child policy of cluster \<open>n\<close> reports meanwhile.
\<close>

fun update_children ::
  "ClusterMap UpdateArgs \<Rightarrow> (string \<Rightarrow> Report list) \<Rightarrow> ClusterMap \<Rightarrow> XdsClusterManagerLb \<Rightarrow>
   error + XdsClusterManagerLb" where
  "update_children args reps [] r = Inr r"
| "update_children args reps ((n, cfg) # ps) r =
     (let (a, r1) =
            (case map_of (children r) n of
               None \<Rightarrow>
                 (length (heap r),
                  r\<lparr>children := AList.update n (length (heap r)) (children r),
                    heap := heap r @ [ClusterChild_new n]\<rparr>)
             | Some a \<Rightarrow> (a, r))
      in case ClusterChild_UpdateLocked cfg (args_addresses args) (args_args args) (reps n) a r1 of
           Inl e \<Rightarrow> Inl e
         | Inr r2 \<Rightarrow> update_children args reps ps r2)"

definition UpdateLocked ::
  "ClusterMap UpdateArgs \<Rightarrow> int \<Rightarrow> (string \<Rightarrow> Report list) \<Rightarrow> XdsClusterManagerLb \<Rightarrow>
   error + XdsClusterManagerLb" where
  "UpdateLocked args now reps r =
     (if shutting_down r then Inr r
      else
        let r1 = r\<lparr>update_in_progress := True, config := Some (args_config args)\<rparr> in
        case deactivate_absent now (args_config args) (children r1) r1 of
          Inl e \<Rightarrow> Inl e
        | Inr r2 \<Rightarrow>
            (case update_children args reps (args_config args) r2 of
               Inl e \<Rightarrow> Inl e
             | Inr r3 \<Rightarrow> UpdateStateLocked (r3\<lparr>update_in_progress := False\<rparr>)))"

subsection \<open>Runs of the policy\<close>

text \<open>
  Everything runs in the policy's work serializer, one operation at a time. An operation is
  an update from the resolver (with the time and what each child policy reports while it is
  updated), a request to exit idle or to reset backoff, the shutdown, a report of the child
  policy of the child at an address, or a timer callback that the work serializer holds.
  Besides, the armed timer of a child may expire, at a time not before its deadline: that
  runs \<^verbatim>\<open>OnDelayedRemovalTimer\<close> with no error, so the locked callback waits in the work
  serializer, and whatever the policy does before it runs, it runs with no error.
\<close>

datatype event =
    EvUpdate "ClusterMap UpdateArgs" int "string \<Rightarrow> Report list"
  | EvExitIdle
  | EvResetBackoff
  | EvShutdown
  | EvChildState nat grpc_connectivity_state Status SubchannelPicker
  | EvTimerExpires nat int
  | EvRunCallback nat

definition timer_expires :: "nat \<Rightarrow> XdsClusterManagerLb \<Rightarrow> XdsClusterManagerLb" where
  "timer_expires self r =
     OnDelayedRemovalTimer OkStatus self
       (set_child self ((heap r ! self)\<lparr>delayed_removal_timer := TimerNotArmed\<rparr>) r)"

text \<open>
  The work serializer runs the callback at position \<open>i\<close>: callbacks come from several
  threads, so they need not run in the order in which their timers ended.
\<close>

definition run_callback :: "nat \<Rightarrow> XdsClusterManagerLb \<Rightarrow> error + XdsClusterManagerLb" where
  "run_callback i r =
     OnDelayedRemovalTimerLocked (snd (work_serializer r ! i)) (fst (work_serializer r ! i))
       (r\<lparr>work_serializer := take i (work_serializer r) @ drop (Suc i) (work_serializer r)\<rparr>)"

fun step :: "event \<Rightarrow> XdsClusterManagerLb \<Rightarrow> error + XdsClusterManagerLb" where
  "step (EvUpdate args now reps) r = UpdateLocked args now reps r"
| "step EvExitIdle r = ExitIdleLocked r"
| "step EvResetBackoff r = ResetBackoffLocked r"
| "step EvShutdown r = ShutdownLocked r"
| "step (EvChildState self state status p) r = Helper_UpdateState state status p self r"
| "step (EvTimerExpires self now) r = Inr (timer_expires self r)"
| "step (EvRunCallback i) r = run_callback i r"

text \<open>
  What the collaborators guarantee. A child policy never reports \<^verbatim>\<open>GRPC_CHANNEL_SHUTDOWN\<close>
  (the source marks that case unreachable), and a report comes from a child that exists. A
  timer expires only while it is armed and its deadline has passed. The work serializer runs
  only a callback that it holds.
\<close>

definition reports_ok :: "Report list \<Rightarrow> bool" where
  "reports_ok reps = (\<forall>rep \<in> set reps. fst rep \<noteq> GRPC_CHANNEL_SHUTDOWN)"

fun expired :: "grpc_timer \<Rightarrow> int \<Rightarrow> bool" where
  "expired (TimerArmed deadline) now = (deadline \<le> now)"
| "expired TimerNotArmed now = False"

fun enabled :: "event \<Rightarrow> XdsClusterManagerLb \<Rightarrow> bool" where
  "enabled (EvUpdate args now reps) r = (\<forall>e \<in> set (args_config args). reports_ok (reps (fst e)))"
| "enabled (EvChildState self state status p) r =
     (self < length (heap r) \<and> state \<noteq> GRPC_CHANNEL_SHUTDOWN)"
| "enabled (EvTimerExpires self now) r =
     (self < length (heap r) \<and> expired (delayed_removal_timer (heap r ! self)) now)"
| "enabled (EvRunCallback i) r = (i < length (work_serializer r))"
| "enabled ev r = True"

inductive reachable :: "XdsClusterManagerLb \<Rightarrow> bool" where
  reachable_new: "reachable XdsClusterManagerLb_new"
| reachable_step: "reachable r \<Longrightarrow> enabled ev r \<Longrightarrow> step ev r = Inr r' \<Longrightarrow> reachable r'"

subsection \<open>The invariant of the runs\<close>

text \<open>
  An entry of \<open>children\<close> owns a live child: the object exists in the store under that name,
  is not shut down, has a child policy and is not in \<^verbatim>\<open>GRPC_CHANNEL_SHUTDOWN\<close>.
\<close>

definition child_ok :: "ClusterChild list \<Rightarrow> string \<times> nat \<Rightarrow> bool" where
  "child_ok h e =
     (snd e < length h \<and> name (h ! snd e) = fst e \<and> \<not> shutdown (h ! snd e) \<and>
      child_policy (h ! snd e) \<noteq> None \<and>
      connectivity_state (h ! snd e) \<noteq> GRPC_CHANNEL_SHUTDOWN)"

definition children_ok :: "XdsClusterManagerLb \<Rightarrow> bool" where
  "children_ok r =
     (distinct (map fst (children r)) \<and> distinct (map snd (children r)) \<and>
      (\<forall>e \<in> set (children r). child_ok (heap r) e))"

text \<open>An object that no entry owns has been orphaned.\<close>

definition orphans_ok :: "XdsClusterManagerLb \<Rightarrow> bool" where
  "orphans_ok r =
     (\<forall>a \<in> {..<length (heap r)}. a \<notin> snd ` set (children r) \<longrightarrow> shutdown (heap r ! a))"

text \<open>A callback in the work serializer belongs to a child that exists.\<close>

definition callbacks_ok :: "XdsClusterManagerLb \<Rightarrow> bool" where
  "callbacks_ok r = (\<forall>cb \<in> set (work_serializer r). fst cb < length (heap r))"

text \<open>
  What the operations on a child keep of it, unless they orphan it: its name, whether it is
  shut down, that it has a child policy, and that it is not in \<^verbatim>\<open>GRPC_CHANNEL_SHUTDOWN\<close>.
\<close>

definition child_kept :: "ClusterChild \<Rightarrow> ClusterChild \<Rightarrow> bool" where
  "child_kept c c' =
     (name c' = name c \<and> shutdown c' = shutdown c \<and>
      (child_policy c \<noteq> None \<longrightarrow> child_policy c' \<noteq> None) \<and>
      (connectivity_state c \<noteq> GRPC_CHANNEL_SHUTDOWN \<longrightarrow>
         connectivity_state c' \<noteq> GRPC_CHANNEL_SHUTDOWN))"

text \<open>
  Before the first update there is no configuration and no child; after the shutdown there
  is no entry.
\<close>

definition wf :: "XdsClusterManagerLb \<Rightarrow> bool" where
  "wf r =
     (children_ok r \<and> orphans_ok r \<and> callbacks_ok r \<and>
      (config r = None \<longrightarrow> heap r = []) \<and> (shutting_down r \<longrightarrow> children r = []))"

text \<open>Every publication carries the status that goes with its state.\<close>

definition publication_ok :: "Publication \<Rightarrow> bool" where
  "publication_ok pub =
     (if fst pub = GRPC_CHANNEL_TRANSIENT_FAILURE
      then fst (fst (snd pub)) = kUnavailable
      else fst (snd pub) = OkStatus)"

definition invariant :: "XdsClusterManagerLb \<Rightarrow> bool" where
  "invariant r =
     (wf r \<and> \<not> update_in_progress r \<and>
      (\<forall>pub \<in> set (channel_control_helper r). publication_ok pub))"

subsection \<open>Notions used in the statements\<close>

text \<open>
  The child after \<^verbatim>\<open>Helper::UpdateState\<close> has written it, before the policy is notified.
\<close>

definition latch :: "Report \<Rightarrow> ClusterChild \<Rightarrow> ClusterChild" where
  "latch rep c =
     (let c1 = c\<lparr>picker_wrapper := Some \<lparr>wrapper_name = name c, picker = snd (snd rep)\<rparr>\<rparr>
      in if connectivity_state c1 \<noteq> GRPC_CHANNEL_TRANSIENT_FAILURE \<or>
            fst rep = GRPC_CHANNEL_READY
         then c1\<lparr>connectivity_state := fst rep\<rparr> else c1)"

text \<open>
  The callbacks that cancelling the timer of a child hands to the work serializer, when the
  child's removal is pending: one with a cancellation error if the timer is armed, none
  otherwise.
\<close>

definition cancel_callbacks :: "nat \<Rightarrow> ClusterChild \<Rightarrow> (nat \<times> Status) list" where
  "cancel_callbacks self c =
     (if delayed_removal_timer_callback_pending c \<and> timer_armed (delayed_removal_timer c)
      then [(self, GRPC_ERROR_CANCELLED)] else [])"

text \<open>
  The child at the end of \<^verbatim>\<open>ClusterChild::UpdateLocked\<close> while the policy's update is in
  progress: a pending removal is cancelled, the child policy is created if there is none and
  gets the update, and its reports are written one after the other.
\<close>

definition updated_child ::
  "LbConfig \<Rightarrow> Status + ServerAddressList \<Rightarrow> ChannelArgs \<Rightarrow> Report list \<Rightarrow> ClusterChild \<Rightarrow>
   ClusterChild" where
  "updated_child cfg addresses args reps c =
     (let c1 = (if delayed_removal_timer_callback_pending c
                then c\<lparr>delayed_removal_timer_callback_pending := False,
                       delayed_removal_timer := TimerNotArmed\<rparr>
                else c);
          p = (case child_policy c1 of
                 None \<Rightarrow> CreateChildPolicyLocked args
               | Some p \<Rightarrow> p);
          update_args = \<lparr>args_addresses = addresses, args_config = cfg, args_args = args\<rparr>;
          c2 = c1\<lparr>child_policy :=
                    Some (LoadBalancingPolicy_call (PolicyUpdateLocked update_args) p)\<rparr>
      in foldl (\<lambda>c rep. latch rep c) c2 reps)"

text \<open>The child at the end of \<^verbatim>\<open>DeactivateLocked\<close> at time \<open>now\<close>.\<close>

definition deactivated :: "int \<Rightarrow> ClusterChild \<Rightarrow> ClusterChild" where
  "deactivated now c =
     (if delayed_removal_timer_callback_pending c then c
      else c\<lparr>delayed_removal_timer :=
               TimerArmed (now + GRPC_XDS_CLUSTER_MANAGER_CHILD_RETENTION_INTERVAL_MS),
             delayed_removal_timer_callback_pending := True\<rparr>)"

text \<open>
  The child at the end of \<^verbatim>\<open>Orphan\<close>: without child policy and picker, shut down, and its
  timer cancelled if its removal was pending.
\<close>

definition orphaned :: "ClusterChild \<Rightarrow> ClusterChild" where
  "orphaned c =
     c\<lparr>child_policy := None, picker_wrapper := None,
       delayed_removal_timer :=
         (if delayed_removal_timer_callback_pending c then TimerNotArmed
          else delayed_removal_timer c),
       shutdown := True\<rparr>"

text \<open>
  A child counts for a state when its name is in the configuration and it is in that state.
\<close>

definition in_state :: "ClusterMap \<Rightarrow> ClusterChild list \<Rightarrow> grpc_connectivity_state \<Rightarrow> string \<times> nat \<Rightarrow> bool" where
  "in_state cfg h st e = (map_of cfg (fst e) \<noteq> None \<and> connectivity_state (h ! snd e) = st)"

text \<open>
  The aggregated state in the words of the specification: the first of READY, CONNECTING and
  IDLE that some configured child is in, and TRANSIENT_FAILURE when there is none.
\<close>

definition aggregate_of :: "ClusterMap \<Rightarrow> ClusterChild list \<Rightarrow> (string \<times> nat) list \<Rightarrow> grpc_connectivity_state" where
  "aggregate_of cfg h chs =
     (if \<exists>e \<in> set chs. in_state cfg h GRPC_CHANNEL_READY e then GRPC_CHANNEL_READY
      else if \<exists>e \<in> set chs. in_state cfg h GRPC_CHANNEL_CONNECTING e then GRPC_CHANNEL_CONNECTING
      else if \<exists>e \<in> set chs. in_state cfg h GRPC_CHANNEL_IDLE e then GRPC_CHANNEL_IDLE
      else GRPC_CHANNEL_TRANSIENT_FAILURE)"

text \<open>
  The entry of the picker's map for a configured name: the child's picker, or a queuing picker
  under the cluster's name when the child has none yet.
\<close>

definition wrapper_for :: "(string \<times> nat) list \<Rightarrow> ClusterChild list \<Rightarrow> string \<Rightarrow> ChildPickerWrapper" where
  "wrapper_for chs h n =
     (case picker_wrapper (h ! the (map_of chs n)) of
        None \<Rightarrow> \<lparr>wrapper_name = n, picker = QueuePicker\<rparr>
      | Some w \<Rightarrow> w)"

text \<open>The policy after the channel's helper has received one more publication.\<close>

definition publish :: "Publication \<Rightarrow> XdsClusterManagerLb \<Rightarrow> XdsClusterManagerLb" where
  "publish pub r = r\<lparr>channel_control_helper := channel_control_helper r @ [pub]\<rparr>"

text \<open>Every name of the configuration has an entry in \<open>children\<close>.\<close>

definition configured_present :: "ClusterMap \<Rightarrow> XdsClusterManagerLb \<Rightarrow> bool" where
  "configured_present cfg r = (\<forall>n \<in> fst ` set cfg. map_of (children r) n \<noteq> None)"


subsection \<open>Example runs\<close>

text \<open>
  The scenario of the specification: clusters A and B are configured; A reports READY, B
  reports TRANSIENT_FAILURE; a configuration with B alone arrives at time 1000, so that A
  waits for its removal, its timer armed for 901000; at last the policy is shut down.
  \<open>router_1\<close> to \<open>router_5\<close> are the states after each of these steps.
\<close>

definition cfg_AB :: ClusterMap where
  "cfg_AB = [(''A'', ''polX''), (''B'', ''polY'')]"

definition cfg_B :: ClusterMap where
  "cfg_B = [(''B'', ''polY'')]"

definition update_args :: "ClusterMap \<Rightarrow> ClusterMap UpdateArgs" where
  "update_args cfg = \<lparr>args_addresses = Inr [], args_config = cfg, args_args = []\<rparr>"

definition no_reports :: "string \<Rightarrow> Report list" where
  "no_reports n = []"

definition picker_A :: SubchannelPicker where
  "picker_A = ChildPolicyPicker (\<lambda>args. Complete 1)"

text \<open>
  A child that is not shut down: its name, the configurations its child policy has been
  updated with, its picker, its state, its timer and its pending flag.
\<close>

definition live_child ::
  "string \<Rightarrow> LbConfig list \<Rightarrow> SubchannelPicker option \<Rightarrow> grpc_connectivity_state \<Rightarrow>
   grpc_timer \<Rightarrow> bool \<Rightarrow> ClusterChild" where
  "live_child n cfgs p st t pending =
     \<lparr>name = n,
      child_policy = Some \<lparr>policy_args = [],
        policy_calls = map (\<lambda>cfg. PolicyUpdateLocked
          \<lparr>args_addresses = Inr [], args_config = cfg, args_args = []\<rparr>) cfgs\<rparr>,
      picker_wrapper = map_option (\<lambda>p. \<lparr>wrapper_name = n, picker = p\<rparr>) p,
      connectivity_state = st, delayed_removal_timer = t,
      delayed_removal_timer_callback_pending = pending, shutdown = False\<rparr>"

text \<open>A child that has been orphaned.\<close>

definition dead_child :: "string \<Rightarrow> grpc_connectivity_state \<Rightarrow> bool \<Rightarrow> ClusterChild" where
  "dead_child n st pending =
     \<lparr>name = n, child_policy = None, picker_wrapper = None, connectivity_state = st,
      delayed_removal_timer = TimerNotArmed, delayed_removal_timer_callback_pending = pending,
      shutdown = True\<rparr>"

definition queue_entry :: "string \<Rightarrow> string \<times> ChildPickerWrapper" where
  "queue_entry n = (n, \<lparr>wrapper_name = n, picker = QueuePicker\<rparr>)"

definition publications_1 :: "Publication list" where
  "publications_1 = [(GRPC_CHANNEL_IDLE, OkStatus, [queue_entry ''A'', queue_entry ''B''])]"

definition router_1 :: XdsClusterManagerLb where
  "router_1 =
     \<lparr>config = Some cfg_AB, shutting_down = False, update_in_progress = False,
      children = [(''A'', 0), (''B'', 1)],
      heap = [live_child ''A'' [''polX''] None GRPC_CHANNEL_IDLE TimerNotArmed False,
              live_child ''B'' [''polY''] None GRPC_CHANNEL_IDLE TimerNotArmed False],
      channel_control_helper = publications_1, work_serializer = []\<rparr>"

definition publication_AB :: Publication where
  "publication_AB =
     (GRPC_CHANNEL_READY, OkStatus,
      [(''A'', \<lparr>wrapper_name = ''A'', picker = picker_A\<rparr>), queue_entry ''B''])"

definition publications_2 :: "Publication list" where
  "publications_2 = publications_1 @ [publication_AB]"

definition router_2 :: XdsClusterManagerLb where
  "router_2 =
     \<lparr>config = Some cfg_AB, shutting_down = False, update_in_progress = False,
      children = [(''A'', 0), (''B'', 1)],
      heap = [live_child ''A'' [''polX''] (Some picker_A) GRPC_CHANNEL_READY TimerNotArmed False,
              live_child ''B'' [''polY''] None GRPC_CHANNEL_IDLE TimerNotArmed False],
      channel_control_helper = publications_2, work_serializer = []\<rparr>"

definition publications_3 :: "Publication list" where
  "publications_3 = publications_2 @ [publication_AB]"

definition router_3 :: XdsClusterManagerLb where
  "router_3 =
     \<lparr>config = Some cfg_AB, shutting_down = False, update_in_progress = False,
      children = [(''A'', 0), (''B'', 1)],
      heap = [live_child ''A'' [''polX''] (Some picker_A) GRPC_CHANNEL_READY TimerNotArmed False,
              live_child ''B'' [''polY''] (Some QueuePicker) GRPC_CHANNEL_TRANSIENT_FAILURE
                TimerNotArmed False],
      channel_control_helper = publications_3, work_serializer = []\<rparr>"

definition publication_B :: Publication where
  "publication_B =
     (GRPC_CHANNEL_TRANSIENT_FAILURE,
      (kUnavailable, ''TRANSIENT_FAILURE from XdsClusterManagerLb''), [queue_entry ''B''])"

definition publications_4 :: "Publication list" where
  "publications_4 = publications_3 @ [publication_B]"

definition router_4 :: XdsClusterManagerLb where
  "router_4 =
     \<lparr>config = Some cfg_B, shutting_down = False, update_in_progress = False,
      children = [(''A'', 0), (''B'', 1)],
      heap = [live_child ''A'' [''polX''] (Some picker_A) GRPC_CHANNEL_READY
                (TimerArmed 901000) True,
              live_child ''B'' [''polY'', ''polY''] (Some QueuePicker)
                GRPC_CHANNEL_TRANSIENT_FAILURE TimerNotArmed False],
      channel_control_helper = publications_4, work_serializer = []\<rparr>"

definition router_5 :: XdsClusterManagerLb where
  "router_5 =
     \<lparr>config = Some cfg_B, shutting_down = True, update_in_progress = False,
      children = [],
      heap = [dead_child ''A'' GRPC_CHANNEL_READY True,
              dead_child ''B'' GRPC_CHANNEL_TRANSIENT_FAILURE False],
      channel_control_helper = publications_4, work_serializer = [(0, GRPC_ERROR_CANCELLED)]\<rparr>"

text \<open>
  A second run, from \<open>router_4\<close>: the timer of A expires at 901000, so that its callback
  waits in the work serializer (\<open>router_6\<close>); an update with A and B runs before it
  (\<open>router_7\<close>); then the callback runs (\<open>router_8\<close>).
\<close>

definition router_6 :: XdsClusterManagerLb where
  "router_6 =
     \<lparr>config = Some cfg_B, shutting_down = False, update_in_progress = False,
      children = [(''A'', 0), (''B'', 1)],
      heap = [live_child ''A'' [''polX''] (Some picker_A) GRPC_CHANNEL_READY TimerNotArmed True,
              live_child ''B'' [''polY'', ''polY''] (Some QueuePicker)
                GRPC_CHANNEL_TRANSIENT_FAILURE TimerNotArmed False],
      channel_control_helper = publications_4, work_serializer = [(0, OkStatus)]\<rparr>"

definition publications_7 :: "Publication list" where
  "publications_7 = publications_4 @ [publication_AB]"

definition router_7 :: XdsClusterManagerLb where
  "router_7 =
     \<lparr>config = Some cfg_AB, shutting_down = False, update_in_progress = False,
      children = [(''A'', 0), (''B'', 1)],
      heap = [live_child ''A'' [''polX'', ''polX''] (Some picker_A) GRPC_CHANNEL_READY
                TimerNotArmed False,
              live_child ''B'' [''polY'', ''polY'', ''polY''] (Some QueuePicker)
                GRPC_CHANNEL_TRANSIENT_FAILURE TimerNotArmed False],
      channel_control_helper = publications_7, work_serializer = [(0, OkStatus)]\<rparr>"

definition router_8 :: XdsClusterManagerLb where
  "router_8 =
     \<lparr>config = Some cfg_AB, shutting_down = False, update_in_progress = False,
      children = [(''B'', 1)],
      heap = [dead_child ''A'' GRPC_CHANNEL_READY False,
              live_child ''B'' [''polY'', ''polY'', ''polY''] (Some QueuePicker)
                GRPC_CHANNEL_TRANSIENT_FAILURE TimerNotArmed False],
      channel_control_helper = publications_7, work_serializer = []\<rparr>"

text \<open>
  A third run, from \<open>router_4\<close>, all of it long before a timer expires: an update with A
  and B at time 2000 cancels the timer of A, so that a callback with a cancellation error
  waits in the work serializer (\<open>router_9\<close>); an update with B alone at 3000 arms the timer
  again, for 903000 (\<open>router_10\<close>); the callback runs (\<open>router_11\<close>); an update with A
  and B arrives at 4000 (\<open>router_12\<close>); the timer expires at 903000 (\<open>router_13\<close>) and
  its callback runs (\<open>router_14\<close>).
\<close>

definition router_9 :: XdsClusterManagerLb where
  "router_9 =
     \<lparr>config = Some cfg_AB, shutting_down = False, update_in_progress = False,
      children = [(''A'', 0), (''B'', 1)],
      heap = [live_child ''A'' [''polX'', ''polX''] (Some picker_A) GRPC_CHANNEL_READY
                TimerNotArmed False,
              live_child ''B'' [''polY'', ''polY'', ''polY''] (Some QueuePicker)
                GRPC_CHANNEL_TRANSIENT_FAILURE TimerNotArmed False],
      channel_control_helper = publications_7,
      work_serializer = [(0, GRPC_ERROR_CANCELLED)]\<rparr>"

definition publications_10 :: "Publication list" where
  "publications_10 = publications_7 @ [publication_B]"

definition router_10 :: XdsClusterManagerLb where
  "router_10 =
     \<lparr>config = Some cfg_B, shutting_down = False, update_in_progress = False,
      children = [(''A'', 0), (''B'', 1)],
      heap = [live_child ''A'' [''polX'', ''polX''] (Some picker_A) GRPC_CHANNEL_READY
                (TimerArmed 903000) True,
              live_child ''B'' [''polY'', ''polY'', ''polY'', ''polY''] (Some QueuePicker)
                GRPC_CHANNEL_TRANSIENT_FAILURE TimerNotArmed False],
      channel_control_helper = publications_10,
      work_serializer = [(0, GRPC_ERROR_CANCELLED)]\<rparr>"

definition router_11 :: XdsClusterManagerLb where
  "router_11 =
     \<lparr>config = Some cfg_B, shutting_down = False, update_in_progress = False,
      children = [(''A'', 0), (''B'', 1)],
      heap = [live_child ''A'' [''polX'', ''polX''] (Some picker_A) GRPC_CHANNEL_READY
                (TimerArmed 903000) False,
              live_child ''B'' [''polY'', ''polY'', ''polY'', ''polY''] (Some QueuePicker)
                GRPC_CHANNEL_TRANSIENT_FAILURE TimerNotArmed False],
      channel_control_helper = publications_10, work_serializer = []\<rparr>"

definition publications_12 :: "Publication list" where
  "publications_12 = publications_10 @ [publication_AB]"

definition router_12 :: XdsClusterManagerLb where
  "router_12 =
     \<lparr>config = Some cfg_AB, shutting_down = False, update_in_progress = False,
      children = [(''A'', 0), (''B'', 1)],
      heap = [live_child ''A'' [''polX'', ''polX'', ''polX''] (Some picker_A) GRPC_CHANNEL_READY
                (TimerArmed 903000) False,
              live_child ''B'' [''polY'', ''polY'', ''polY'', ''polY'', ''polY''] (Some QueuePicker)
                GRPC_CHANNEL_TRANSIENT_FAILURE TimerNotArmed False],
      channel_control_helper = publications_12, work_serializer = []\<rparr>"

definition router_13 :: XdsClusterManagerLb where
  "router_13 =
     \<lparr>config = Some cfg_AB, shutting_down = False, update_in_progress = False,
      children = [(''A'', 0), (''B'', 1)],
      heap = [live_child ''A'' [''polX'', ''polX'', ''polX''] (Some picker_A) GRPC_CHANNEL_READY
                TimerNotArmed False,
              live_child ''B'' [''polY'', ''polY'', ''polY'', ''polY'', ''polY''] (Some QueuePicker)
                GRPC_CHANNEL_TRANSIENT_FAILURE TimerNotArmed False],
      channel_control_helper = publications_12, work_serializer = [(0, OkStatus)]\<rparr>"

definition router_14 :: XdsClusterManagerLb where
  "router_14 =
     \<lparr>config = Some cfg_AB, shutting_down = False, update_in_progress = False,
      children = [(''B'', 1)],
      heap = [dead_child ''A'' GRPC_CHANNEL_READY False,
              live_child ''B'' [''polY'', ''polY'', ''polY'', ''polY'', ''polY''] (Some QueuePicker)
                GRPC_CHANNEL_TRANSIENT_FAILURE TimerNotArmed False],
      channel_control_helper = publications_12, work_serializer = []\<rparr>"

text \<open>
  The third run goes on with one more update with A and B, at 904000 (\<open>router_15\<close>).
\<close>

definition router_15 :: XdsClusterManagerLb where
  "router_15 =
     \<lparr>config = Some cfg_AB, shutting_down = False, update_in_progress = False,
      children = [(''B'', 1), (''A'', 2)],
      heap = [dead_child ''A'' GRPC_CHANNEL_READY False,
              live_child ''B'' [''polY'', ''polY'', ''polY'', ''polY'', ''polY'', ''polY'']
                (Some QueuePicker) GRPC_CHANNEL_TRANSIENT_FAILURE TimerNotArmed False,
              live_child ''A'' [''polX''] None GRPC_CHANNEL_IDLE TimerNotArmed False],
      channel_control_helper = publications_12 @ publications_1, work_serializer = []\<rparr>"

text \<open>
  More of the example: what the child policy of A reports while it is updated, a picker map
  with the entry of A alone, and a call routed to a cluster.
\<close>

definition reports_A :: "string \<Rightarrow> Report list" where
  "reports_A n = (if n = ''A'' then [(GRPC_CHANNEL_READY, OkStatus, picker_A)] else [])"

definition picker_map_A :: ClusterPicker where
  "picker_map_A = [(''A'', \<lparr>wrapper_name = ''A'', picker = picker_A\<rparr>)]"

definition call_to :: "string \<Rightarrow> PickArgs" where
  "call_to n = \<lparr>path = ''/service/method'', call_state = [(XdsClusterAttributeTypeName, n)]\<rparr>"

section \<open>Proofs\<close>

subsection \<open>The aggregate recomputation\<close>

lemma heap_set_child: "heap (set_child a c r) = (heap r)[a := c]"
  and children_set_child: "children (set_child a c r) = children r"
  and config_set_child: "config (set_child a c r) = config r"
  and shutting_down_set_child: "shutting_down (set_child a c r) = shutting_down r"
  and update_in_progress_set_child: "update_in_progress (set_child a c r) = update_in_progress r"
  and helper_set_child: "channel_control_helper (set_child a c r) = channel_control_helper r"
  and work_serializer_set_child: "work_serializer (set_child a c r) = work_serializer r"
  by (simp_all add: set_child_def)

lemmas set_child_fields = heap_set_child children_set_child config_set_child
  shutting_down_set_child update_in_progress_set_child helper_set_child work_serializer_set_child

lemma UpdateStateLocked_in_progress: "update_in_progress r \<Longrightarrow> UpdateStateLocked r = Inr r"
  by (simp add: UpdateStateLocked_def)

lemma count_states_ok:
  assumes "\<forall>e \<in> set chs. map_of cfg (fst e) \<noteq> None \<longrightarrow>
             snd e < length h \<and> connectivity_state (h ! snd e) \<noteq> GRPC_CHANNEL_SHUTDOWN"
  shows "count_states cfg h chs (nr, nc, ni, nt) =
           Inr (nr + length (filter (in_state cfg h GRPC_CHANNEL_READY) chs),
                nc + length (filter (in_state cfg h GRPC_CHANNEL_CONNECTING) chs),
                ni + length (filter (in_state cfg h GRPC_CHANNEL_IDLE) chs),
                nt + length (filter (in_state cfg h GRPC_CHANNEL_TRANSIENT_FAILURE) chs))"
  using assms
proof (induction chs arbitrary: nr nc ni nt)
  case Nil
  then show ?case by simp
next
  case (Cons e chs)
  obtain n a where e: "e = (n, a)" by (cases e)
  show ?case
  proof (cases "map_of cfg n = None")
    case True
    with Cons e show ?thesis by (simp add: in_state_def)
  next
    case False
    with Cons.prems e have a: "a < length h" "connectivity_state (h ! a) \<noteq> GRPC_CHANNEL_SHUTDOWN"
      by auto
    from Cons.prems have rest: "\<forall>e \<in> set chs. map_of cfg (fst e) \<noteq> None \<longrightarrow>
             snd e < length h \<and> connectivity_state (h ! snd e) \<noteq> GRPC_CHANNEL_SHUTDOWN"
      by simp
    show ?thesis
      using False a e Cons.IH [OF rest]
      by (cases "connectivity_state (h ! a)") (simp_all add: in_state_def)
  qed
qed

lemma aggregated_state_counts:
  "aggregated_state
     (length (filter (in_state cfg h GRPC_CHANNEL_READY) chs),
      length (filter (in_state cfg h GRPC_CHANNEL_CONNECTING) chs),
      length (filter (in_state cfg h GRPC_CHANNEL_IDLE) chs),
      length (filter (in_state cfg h GRPC_CHANNEL_TRANSIENT_FAILURE) chs))
   = aggregate_of cfg h chs"
  by (auto simp add: aggregate_of_def filter_empty_conv)

lemma build_cluster_map_ok:
  assumes "\<forall>e \<in> set ps. \<exists>a. map_of chs (fst e) = Some a \<and> a < length h"
  shows "\<exists>cm. build_cluster_map chs h ps acc = Inr cm \<and>
              fst ` set cm = fst ` set acc \<union> fst ` set ps \<and>
              (\<forall>n. map_of cm n =
                     (if n \<in> fst ` set ps then Some (wrapper_for chs h n) else map_of acc n))"
  using assms
proof (induction ps arbitrary: acc)
  case Nil
  then show ?case by simp
next
  case (Cons e ps)
  obtain n c where e: "e = (n, c)" by (cases e)
  from Cons.prems e obtain a where a: "map_of chs n = Some a" "a < length h" by auto
  from Cons.prems have rest: "\<forall>e \<in> set ps. \<exists>a. map_of chs (fst e) = Some a \<and> a < length h"
    by simp
  from Cons.IH [OF rest, of "AList.update n (wrapper_for chs h n) acc"]
  obtain cm where cm: "build_cluster_map chs h ps (AList.update n (wrapper_for chs h n) acc) = Inr cm"
    "fst ` set cm = fst ` set (AList.update n (wrapper_for chs h n) acc) \<union> fst ` set ps"
    "\<forall>m. map_of cm m = (if m \<in> fst ` set ps then Some (wrapper_for chs h m)
                          else map_of (AList.update n (wrapper_for chs h n) acc) m)"
    by blast
  have "build_cluster_map chs h (e # ps) acc = Inr cm"
    using e a cm(1) by (simp add: wrapper_for_def)
  moreover have "fst ` set cm = fst ` set acc \<union> fst ` set (e # ps)"
    using cm(2) e by (auto simp: dom_update)
  moreover have "\<forall>m. map_of cm m =
                     (if m \<in> fst ` set (e # ps) then Some (wrapper_for chs h m) else map_of acc m)"
    using cm(3) e by (auto simp: update_conv')
  ultimately show ?case by blast
qed

lemma build_cluster_map_missing:
  assumes "\<exists>e \<in> set ps. map_of chs (fst e) = None"
    and "\<forall>e \<in> set chs. snd e < length h"
  shows "build_cluster_map chs h ps acc = Inl NullDereference"
  using assms(1)
proof (induction ps arbitrary: acc)
  case Nil
  then show ?case by simp
next
  case (Cons e ps)
  obtain n c where e: "e = (n, c)" by (cases e)
  show ?case
  proof (cases "map_of chs n")
    case None
    with e show ?thesis by simp
  next
    case (Some a)
    then have "(n, a) \<in> set chs" by (rule map_of_SomeD)
    with assms(2) have a: "a < length h" by force
    from Cons.prems e Some have "\<exists>e \<in> set ps. map_of chs (fst e) = None" by auto
    from Cons.IH [OF this] e Some a show ?thesis by (simp add: Let_def)
  qed
qed

lemma publish_fields:
  "heap (publish pub r) = heap r" "children (publish pub r) = children r"
  "config (publish pub r) = config r" "shutting_down (publish pub r) = shutting_down r"
  "update_in_progress (publish pub r) = update_in_progress r"
  "channel_control_helper (publish pub r) = channel_control_helper r @ [pub]"
  "work_serializer (publish pub r) = work_serializer r"
  by (simp_all add: publish_def)

lemma UpdateStateLocked_publishes:
  assumes uip: "\<not> update_in_progress r" and cfg: "config r = Some cfg"
    and chs: "\<forall>e \<in> set (children r). map_of cfg (fst e) \<noteq> None \<longrightarrow>
               snd e < length (heap r) \<and> connectivity_state (heap r ! snd e) \<noteq> GRPC_CHANNEL_SHUTDOWN"
    and names: "\<forall>e \<in> set cfg. \<exists>a. map_of (children r) (fst e) = Some a \<and> a < length (heap r)"
  shows "\<exists>cm. UpdateStateLocked r =
                Inr (publish (aggregate_of cfg (heap r) (children r),
                              aggregated_status (aggregate_of cfg (heap r) (children r)), cm) r) \<and>
              fst ` set cm = fst ` set cfg \<and>
              (\<forall>n \<in> fst ` set cfg. map_of cm n = Some (wrapper_for (children r) (heap r) n))"
proof -
  from build_cluster_map_ok [OF names, of "[]"]
  obtain cm where cm: "build_cluster_map (children r) (heap r) cfg [] = Inr cm"
    "fst ` set cm = fst ` set cfg"
    "\<forall>n. map_of cm n = (if n \<in> fst ` set cfg then Some (wrapper_for (children r) (heap r) n) else None)"
    by auto
  have "UpdateStateLocked r =
          Inr (publish (aggregate_of cfg (heap r) (children r),
                        aggregated_status (aggregate_of cfg (heap r) (children r)), cm) r)"
    unfolding UpdateStateLocked_def publish_def
    using uip cfg cm(1) count_states_ok [OF chs, of 0 0 0 0] aggregated_state_counts [of cfg "heap r" "children r"]
    by simp
  moreover have "\<forall>n \<in> fst ` set cfg. map_of cm n = Some (wrapper_for (children r) (heap r) n)"
    using cm(3) by simp
  ultimately show ?thesis using cm(2) by blast
qed

lemma UpdateStateLocked_missing:
  assumes uip: "\<not> update_in_progress r" and cfg: "config r = Some cfg"
    and chs: "\<forall>e \<in> set (children r).
               snd e < length (heap r) \<and> connectivity_state (heap r ! snd e) \<noteq> GRPC_CHANNEL_SHUTDOWN"
    and names: "\<exists>e \<in> set cfg. map_of (children r) (fst e) = None"
  shows "UpdateStateLocked r = Inl NullDereference"
proof -
  have 1: "\<forall>e \<in> set (children r). map_of cfg (fst e) \<noteq> None \<longrightarrow>
               snd e < length (heap r) \<and> connectivity_state (heap r ! snd e) \<noteq> GRPC_CHANNEL_SHUTDOWN"
    using chs by simp
  have 2: "\<forall>e \<in> set (children r). snd e < length (heap r)"
    using chs by simp
  show ?thesis
    unfolding UpdateStateLocked_def
    using uip cfg count_states_ok [OF 1, of 0 0 0 0] build_cluster_map_missing [OF names 2, of "[]"]
    by simp
qed

lemma UpdateStateLocked_result:
  "UpdateStateLocked r = Inr r' \<Longrightarrow>
     r' = r \<or> (\<exists>st cm. r' = publish (st, aggregated_status st, cm) r)"
  by (auto simp: UpdateStateLocked_def publish_def split: if_splits option.splits sum.splits)

lemma UpdateStateLocked_published:
  "\<not> update_in_progress r \<Longrightarrow> UpdateStateLocked r = Inr r' \<Longrightarrow>
     \<exists>st cm. r' = publish (st, aggregated_status st, cm) r"
  by (auto simp: UpdateStateLocked_def publish_def split: if_splits option.splits sum.splits)

subsection \<open>What keeps the store well formed\<close>

lemma snd_inj_entry:
  "distinct (map snd xs) \<Longrightarrow> e \<in> set xs \<Longrightarrow> e' \<in> set xs \<Longrightarrow> snd e = snd e' \<Longrightarrow> e = e'"
  by (auto simp: distinct_map inj_on_def)

lemma fst_inj_entry:
  "distinct (map fst xs) \<Longrightarrow> e \<in> set xs \<Longrightarrow> e' \<in> set xs \<Longrightarrow> fst e = fst e' \<Longrightarrow> e = e'"
  by (auto simp: distinct_map inj_on_def)

lemma child_kept_refl: "child_kept c c"
  by (simp add: child_kept_def)

lemma wf_fields:
  assumes "children r' = children r" "heap r' = heap r" "config r' = config r"
    "shutting_down r' = shutting_down r" "work_serializer r' = work_serializer r"
  shows "wf r' = wf r"
  using assms by (simp add: wf_def children_ok_def orphans_ok_def callbacks_ok_def)

lemma wf_publish: "wf (publish pub r) = wf r"
  by (rule wf_fields) (simp_all add: publish_def)

lemma wf_heap:
  assumes wf: "wf r" and len: "length h' = length (heap r)"
    and kept: "\<forall>b < length h'. child_kept (heap r ! b) (h' ! b)"
  shows "wf (r\<lparr>heap := h'\<rparr>)"
proof -
  from wf have cok: "children_ok r" and ook: "orphans_ok r" and qok: "callbacks_ok r"
    and nc: "config r = None \<longrightarrow> heap r = []" and sd: "shutting_down r \<longrightarrow> children r = []"
    by (simp_all add: wf_def)
  have "children_ok (r\<lparr>heap := h'\<rparr>)"
    unfolding children_ok_def
  proof (intro conjI ballI)
    fix e assume "e \<in> set (children (r\<lparr>heap := h'\<rparr>))"
    then have e: "e \<in> set (children r)" by simp
    with cok have ok: "child_ok (heap r) e" by (simp add: children_ok_def)
    then have "snd e < length h'" by (simp add: child_ok_def len)
    with kept have "child_kept (heap r ! snd e) (h' ! snd e)" by simp
    with ok show "child_ok (heap (r\<lparr>heap := h'\<rparr>)) e"
      by (simp add: child_ok_def child_kept_def len)
  qed (use cok in \<open>simp_all add: children_ok_def\<close>)
  moreover have "orphans_ok (r\<lparr>heap := h'\<rparr>)"
    using ook kept len by (auto simp: orphans_ok_def child_kept_def)
  moreover have "callbacks_ok (r\<lparr>heap := h'\<rparr>)"
    using qok len by (simp add: callbacks_ok_def)
  ultimately show ?thesis using nc sd len by (auto simp add: wf_def)
qed

lemma wf_modify:
  assumes wf: "wf r" and a: "self < length (heap r)" and c: "child_kept (heap r ! self) c'"
  shows "wf (set_child self c' r)"
  unfolding set_child_def
proof (rule wf_heap [OF wf])
  show "\<forall>b < length ((heap r)[self := c']). child_kept (heap r ! b) ((heap r)[self := c'] ! b)"
  proof (intro allI impI)
    fix b assume "b < length ((heap r)[self := c'])"
    then show "child_kept (heap r ! b) ((heap r)[self := c'] ! b)"
      using c by (cases "b = self") (simp_all add: child_kept_refl)
  qed
qed simp

lemma wf_callback_added:
  assumes "wf r" "self < length (heap r)"
  shows "wf (r\<lparr>work_serializer := work_serializer r @ [(self, err)]\<rparr>)"
  using assms by (simp add: wf_def children_ok_def orphans_ok_def callbacks_ok_def)

lemma wf_callbacks_added:
  assumes "wf r" "\<forall>cb \<in> set cbs. fst cb < length (heap r)"
  shows "wf (r\<lparr>work_serializer := work_serializer r @ cbs\<rparr>)"
  using assms by (auto simp add: wf_def children_ok_def orphans_ok_def callbacks_ok_def)

lemma wf_callback_removed:
  assumes "wf r"
  shows "wf (r\<lparr>work_serializer := take i (work_serializer r) @ drop (Suc i) (work_serializer r)\<rparr>)"
proof -
  have "set (take i (work_serializer r) @ drop (Suc i) (work_serializer r)) \<subseteq> set (work_serializer r)"
    using set_take_subset [of i "work_serializer r"] set_drop_subset [of "Suc i" "work_serializer r"]
    by auto
  with assms show ?thesis
    by (auto simp add: wf_def children_ok_def orphans_ok_def callbacks_ok_def)
qed

lemma cancel_callbacks_ok: "\<forall>cb \<in> set (cancel_callbacks self c). fst cb = self"
  by (simp add: cancel_callbacks_def)

lemma wf_config:
  assumes "wf r" "heap r \<noteq> []"
  shows "\<exists>cfg. config r = Some cfg"
  using assms by (cases "config r") (simp_all add: wf_def)

lemma wf_states:
  assumes "wf r"
  shows "\<forall>e \<in> set (children r).
           snd e < length (heap r) \<and> connectivity_state (heap r ! snd e) \<noteq> GRPC_CHANNEL_SHUTDOWN"
  using assms by (auto simp: wf_def children_ok_def child_ok_def)

lemma wf_names:
  assumes "wf r" "configured_present cfg r"
  shows "\<forall>e \<in> set cfg. \<exists>a. map_of (children r) (fst e) = Some a \<and> a < length (heap r)"
proof
  fix e assume "e \<in> set cfg"
  with assms(2) obtain a where a: "map_of (children r) (fst e) = Some a"
    by (auto simp: configured_present_def)
  then have "(fst e, a) \<in> set (children r)" by (rule map_of_SomeD)
  with assms(1) have "a < length (heap r)"
    by (auto simp: wf_def children_ok_def child_ok_def)
  with a show "\<exists>a. map_of (children r) (fst e) = Some a \<and> a < length (heap r)" by blast
qed

lemma wf_live:
  assumes wf: "wf r" and self: "self < length (heap r)" and live: "\<not> shutdown (heap r ! self)"
  shows "(name (heap r ! self), self) \<in> set (children r) \<and>
         map_of (children r) (name (heap r ! self)) = Some self \<and>
         child_policy (heap r ! self) \<noteq> None"
proof -
  from wf self live have "self \<in> snd ` set (children r)"
    by (auto simp: wf_def orphans_ok_def)
  then obtain n where n: "(n, self) \<in> set (children r)" by auto
  with wf have "child_ok (heap r) (n, self)" by (simp add: wf_def children_ok_def)
  then have "name (heap r ! self) = n" "child_policy (heap r ! self) \<noteq> None"
    by (simp_all add: child_ok_def)
  moreover from wf have "distinct (map fst (children r))" by (simp add: wf_def children_ok_def)
  ultimately show ?thesis using n by simp
qed

lemma UpdateStateLocked_wf:
  assumes "wf r" "\<not> update_in_progress r" "config r = Some cfg" "configured_present cfg r"
  shows "\<exists>cm. UpdateStateLocked r =
                Inr (publish (aggregate_of cfg (heap r) (children r),
                              aggregated_status (aggregate_of cfg (heap r) (children r)), cm) r) \<and>
              fst ` set cm = fst ` set cfg \<and>
              (\<forall>n \<in> fst ` set cfg. map_of cm n = Some (wrapper_for (children r) (heap r) n))"
proof (rule UpdateStateLocked_publishes [OF assms(2) assms(3) _ wf_names [OF assms(1,4)]])
  show "\<forall>e \<in> set (children r). map_of cfg (fst e) \<noteq> None \<longrightarrow>
          snd e < length (heap r) \<and> connectivity_state (heap r ! snd e) \<noteq> GRPC_CHANNEL_SHUTDOWN"
    using wf_states [OF assms(1)] by simp
qed

lemma UpdateStateLocked_wf_missing:
  assumes "wf r" "\<not> update_in_progress r" "config r = Some cfg" "\<not> configured_present cfg r"
  shows "UpdateStateLocked r = Inl NullDereference"
proof (rule UpdateStateLocked_missing [OF assms(2) assms(3) wf_states [OF assms(1)]])
  from assms(4) show "\<exists>e \<in> set cfg. map_of (children r) (fst e) = None"
    by (auto simp: configured_present_def)
qed

lemma set_delete: "set (AList.delete n xs) = {e \<in> set xs. fst e \<noteq> n}"
  by (auto simp: AList.delete_eq)

lemma distinct_snd_delete: "distinct (map snd xs) \<Longrightarrow> distinct (map snd (AList.delete n xs))"
  by (simp add: AList.delete_eq distinct_map_filter)

lemma wf_erase:
  assumes wf: "wf r" and e: "(n, a) \<in> set (children r)" and c: "shutdown c'"
  shows "wf (set_child a c' (r\<lparr>children := AList.delete n (children r)\<rparr>))"
proof -
  let ?r' = "set_child a c' (r\<lparr>children := AList.delete n (children r)\<rparr>)"
  from wf have cok: "children_ok r" and ook: "orphans_ok r" and qok: "callbacks_ok r"
    and nc: "config r = None \<longrightarrow> heap r = []" and sd: "shutting_down r \<longrightarrow> children r = []"
    by (simp_all add: wf_def)
  have ch: "children ?r' = AList.delete n (children r)" and hp: "heap ?r' = (heap r)[a := c']"
    and cf: "config ?r' = config r" and sh: "shutting_down ?r' = shutting_down r"
    and ws: "work_serializer ?r' = work_serializer r"
    by (simp_all add: set_child_def)
  from cok e have a: "a < length (heap r)"
    by (auto simp: children_ok_def child_ok_def)
  have other: "snd e' \<noteq> a" if "e' \<in> set (AList.delete n (children r))" for e'
  proof
    assume "snd e' = a"
    with that snd_inj_entry [of "children r" e' "(n, a)"] cok e have "e' = (n, a)"
      by (auto simp: children_ok_def set_delete)
    with that show False by (simp add: set_delete)
  qed
  have "children_ok ?r'"
    unfolding children_ok_def ch hp
  proof (intro conjI ballI)
    fix e' assume e': "e' \<in> set (AList.delete n (children r))"
    with cok have "child_ok (heap r) e'" by (simp add: children_ok_def set_delete)
    with other [OF e'] show "child_ok ((heap r)[a := c']) e'" by (simp add: child_ok_def)
  qed (use cok in \<open>simp_all add: children_ok_def distinct_delete distinct_snd_delete\<close>)
  moreover have "orphans_ok ?r'"
    unfolding orphans_ok_def ch hp
  proof (intro ballI impI)
    fix b assume b: "b \<in> {..<length ((heap r)[a := c'])}" "b \<notin> snd ` set (AList.delete n (children r))"
    show "shutdown ((heap r)[a := c'] ! b)"
    proof (cases "b = a")
      case True
      with a c show ?thesis by simp
    next
      case False
      have "b \<notin> snd ` set (children r)"
      proof
        assume "b \<in> snd ` set (children r)"
        then obtain e' where e': "e' \<in> set (children r)" "snd e' = b" by auto
        with b(2) have "fst e' = n" by (force simp: set_delete)
        with fst_inj_entry [of "children r" e' "(n, a)"] cok e e'(1) have "e' = (n, a)"
          by (simp add: children_ok_def)
        with e'(2) False show False by simp
      qed
      with b(1) ook False show ?thesis by (simp add: orphans_ok_def)
    qed
  qed
  moreover have "callbacks_ok ?r'"
    using qok by (simp add: callbacks_ok_def hp ws)
  moreover have "shutting_down ?r' \<longrightarrow> children ?r' = []"
    using sd by (auto simp add: set_child_def)
  moreover have "config ?r' = None \<longrightarrow> heap ?r' = []"
    using nc by (simp add: hp cf)
  ultimately show ?thesis by (simp add: wf_def)
qed

lemma update_absent: "map_of xs n = None \<Longrightarrow> AList.update n v xs = xs @ [(n, v)]"
  by (induction xs) (auto split: if_splits)

lemma wf_new_child:
  assumes wf: "wf r" and absent: "map_of (children r) n = None"
    and cfg: "config r \<noteq> None" and nsd: "\<not> shutting_down r"
    and c: "name c' = n" "\<not> shutdown c'" "child_policy c' \<noteq> None"
      "connectivity_state c' \<noteq> GRPC_CHANNEL_SHUTDOWN"
  shows "wf (r\<lparr>children := children r @ [(n, length (heap r))], heap := heap r @ [c']\<rparr>)"
proof -
  let ?r' = "r\<lparr>children := children r @ [(n, length (heap r))], heap := heap r @ [c']\<rparr>"
  from wf have cok: "children_ok r" and ook: "orphans_ok r" and qok: "callbacks_ok r"
    by (simp_all add: wf_def)
  from absent have nn: "n \<notin> fst ` set (children r)" by (simp add: map_of_eq_None_iff)
  from cok have lt: "e \<in> set (children r) \<Longrightarrow> snd e < length (heap r)" for e
    by (auto simp: children_ok_def child_ok_def)
  have ln: "length (heap r) \<notin> snd ` set (children r)"
  proof
    assume "length (heap r) \<in> snd ` set (children r)"
    then obtain e where "e \<in> set (children r)" "snd e = length (heap r)" by auto
    with lt [of e] show False by simp
  qed
  have old: "child_ok (heap r @ [c']) e" if "e \<in> set (children r)" for e
  proof -
    from that cok have "child_ok (heap r) e" by (simp add: children_ok_def)
    with lt [OF that] show ?thesis by (simp add: child_ok_def nth_append)
  qed
  have new: "child_ok (heap r @ [c']) (n, length (heap r))"
    using c by (simp add: child_ok_def)
  have "children_ok ?r'"
    using cok nn ln old new by (auto simp: children_ok_def)
  moreover have "orphans_ok ?r'"
    unfolding orphans_ok_def
  proof (intro ballI impI)
    fix b assume b: "b \<in> {..<length (heap ?r')}" "b \<notin> snd ` set (children ?r')"
    then have "b < length (heap r)" "b \<notin> snd ` set (children r)" by (auto simp: less_Suc_eq)
    with ook show "shutdown (heap ?r' ! b)" by (simp add: orphans_ok_def nth_append)
  qed
  moreover have "callbacks_ok ?r'"
    using qok by (auto simp: callbacks_ok_def less_Suc_eq)
  ultimately show ?thesis using nsd cfg by (simp add: wf_def)
qed

lemma invariant_new: "invariant XdsClusterManagerLb_new"
  by (simp add: invariant_def wf_def children_ok_def orphans_ok_def callbacks_ok_def
      XdsClusterManagerLb_new_def)

lemma invariant_publish:
  "wf r \<Longrightarrow> \<not> update_in_progress r \<Longrightarrow>
   \<forall>pub \<in> set (channel_control_helper r). publication_ok pub \<Longrightarrow>
   invariant (publish (st, aggregated_status st, cm) r)"
  by (simp add: invariant_def wf_publish publish_fields publication_ok_def aggregated_status_def
      OkStatus_def)

lemma invariant_fields:
  assumes "invariant r" "wf r'" "update_in_progress r' = update_in_progress r"
    "channel_control_helper r' = channel_control_helper r"
  shows "invariant r'"
  using assms by (simp add: invariant_def)

subsection \<open>The operations on a child\<close>

lemma latch_fields:
  "name (latch rep c) = name c" "shutdown (latch rep c) = shutdown c"
  "child_policy (latch rep c) = child_policy c"
  "delayed_removal_timer (latch rep c) = delayed_removal_timer c"
  "delayed_removal_timer_callback_pending (latch rep c) = delayed_removal_timer_callback_pending c"
  "picker_wrapper (latch rep c) = Some \<lparr>wrapper_name = name c, picker = snd (snd rep)\<rparr>"
  "connectivity_state (latch rep c) =
     (if connectivity_state c = GRPC_CHANNEL_TRANSIENT_FAILURE \<and> fst rep \<noteq> GRPC_CHANNEL_READY
      then GRPC_CHANNEL_TRANSIENT_FAILURE else fst rep)"
  by (simp_all add: latch_def Let_def)

lemma latch_eq:
  "latch (st, status, p) c =
     c\<lparr>picker_wrapper := Some \<lparr>wrapper_name = name c, picker = p\<rparr>,
       connectivity_state :=
         (if connectivity_state c = GRPC_CHANNEL_TRANSIENT_FAILURE \<and> st \<noteq> GRPC_CHANNEL_READY
          then GRPC_CHANNEL_TRANSIENT_FAILURE else st)\<rparr>"
  by (cases c) (auto simp: latch_def Let_def)

lemma latch_kept: "fst rep \<noteq> GRPC_CHANNEL_SHUTDOWN \<Longrightarrow> child_kept c (latch rep c)"
  by (simp add: child_kept_def latch_fields)

lemma Helper_UpdateState_eq:
  "self < length (heap r) \<Longrightarrow> \<not> shutting_down r \<Longrightarrow>
   Helper_UpdateState st status p self r =
     UpdateStateLocked (set_child self (latch (st, status, p) (heap r ! self)) r)"
  by (simp add: Helper_UpdateState_def latch_def Let_def)

lemma Helper_UpdateState_shut_down:
  "self < length (heap r) \<Longrightarrow> shutting_down r \<Longrightarrow> Helper_UpdateState st status p self r = Inr r"
  by (simp add: Helper_UpdateState_def)

lemma wf_latch:
  "wf r \<Longrightarrow> self < length (heap r) \<Longrightarrow> fst rep \<noteq> GRPC_CHANNEL_SHUTDOWN \<Longrightarrow>
   wf (set_child self (latch rep (heap r ! self)) r)"
  by (rule wf_modify) (simp_all add: latch_kept)

lemma set_child_twice: "set_child a c (set_child a c0 r) = set_child a c r"
  by (simp add: set_child_def)

lemma set_child_same: "a < length (heap r) \<Longrightarrow> set_child a (heap r ! a) r = r"
  by (simp add: set_child_def)

lemma Helper_UpdateState_in_progress:
  "update_in_progress r \<Longrightarrow> \<not> shutting_down r \<Longrightarrow> self < length (heap r) \<Longrightarrow>
   Helper_UpdateState st status p self r =
     Inr (set_child self (latch (st, status, p) (heap r ! self)) r)"
  by (simp add: Helper_UpdateState_eq UpdateStateLocked_in_progress update_in_progress_set_child)

lemma child_reports_in_progress:
  "update_in_progress r \<Longrightarrow> \<not> shutting_down r \<Longrightarrow> self < length (heap r) \<Longrightarrow>
   child_reports reps self r =
     Inr (set_child self (foldl (\<lambda>c rep. latch rep c) (heap r ! self) reps) r)"
proof (induction reps arbitrary: r)
  case Nil
  then show ?case by (simp add: set_child_same)
next
  case (Cons rep reps)
  obtain st status p where rep: "rep = (st, status, p)" by (cases rep)
  let ?r1 = "set_child self (latch rep (heap r ! self)) r"
  have r1: "update_in_progress ?r1" "\<not> shutting_down ?r1" "self < length (heap ?r1)"
    using Cons.prems
    by (simp_all add: update_in_progress_set_child shutting_down_set_child heap_set_child)
  show ?case
    using Cons.prems Cons.IH [OF r1] rep
    by (simp add: Helper_UpdateState_in_progress set_child_twice heap_set_child)
qed

lemma not_armed: "\<not> timer_armed t \<Longrightarrow> t = TimerNotArmed"
  by (cases t) simp_all

lemma grpc_timer_cancel_eq:
  "self < length (heap r) \<Longrightarrow>
   grpc_timer_cancel self r =
     (set_child self ((heap r ! self)\<lparr>delayed_removal_timer := TimerNotArmed\<rparr>) r)
       \<lparr>work_serializer := work_serializer r @
          (if timer_armed (delayed_removal_timer (heap r ! self))
           then [(self, GRPC_ERROR_CANCELLED)] else [])\<rparr>"
proof (cases "timer_armed (delayed_removal_timer (heap r ! self))")
  case True
  then show ?thesis
    by (simp add: grpc_timer_cancel_def OnDelayedRemovalTimer_def set_child_def)
next
  case False
  assume self: "self < length (heap r)"
  from False have "delayed_removal_timer (heap r ! self) = TimerNotArmed" by (rule not_armed)
  then have "(heap r ! self)\<lparr>delayed_removal_timer := TimerNotArmed\<rparr> = heap r ! self"
    by (cases "heap r ! self") simp
  with False self show ?thesis
    by (simp add: grpc_timer_cancel_def set_child_same)
qed

lemma ClusterChild_UpdateLocked_in_progress:
  assumes "update_in_progress r" "\<not> shutting_down r" "self < length (heap r)"
  shows "ClusterChild_UpdateLocked cfg addresses args reps self r =
           Inr ((set_child self (updated_child cfg addresses args reps (heap r ! self)) r)
                  \<lparr>work_serializer := work_serializer r @ cancel_callbacks self (heap r ! self)\<rparr>)"
proof -
  let ?c = "heap r ! self"
  let ?c1 = "if delayed_removal_timer_callback_pending ?c
             then ?c\<lparr>delayed_removal_timer_callback_pending := False,
                     delayed_removal_timer := TimerNotArmed\<rparr>
             else ?c"
  let ?r1 = "(set_child self ?c1 r)
               \<lparr>work_serializer := work_serializer r @ cancel_callbacks self ?c\<rparr>"
  have r1: "(if delayed_removal_timer_callback_pending ?c
             then grpc_timer_cancel self
                    (set_child self (?c\<lparr>delayed_removal_timer_callback_pending := False\<rparr>) r)
             else r) = ?r1"
  proof (cases "delayed_removal_timer_callback_pending ?c")
    case True
    have "self < length (heap (set_child self (?c\<lparr>delayed_removal_timer_callback_pending := False\<rparr>) r))"
      using assms(3) by (simp add: set_child_def)
    from grpc_timer_cancel_eq [OF this] True assms(3) show ?thesis
      by (simp add: set_child_def cancel_callbacks_def)
  next
    case False
    with assms(3) show ?thesis by (simp add: set_child_def cancel_callbacks_def)
  qed
  have f: "update_in_progress (set_child self c ?r1)" "\<not> shutting_down (set_child self c ?r1)"
    "self < length (heap (set_child self c ?r1))" for c
    using assms by (simp_all add: set_child_def)
  have h1: "heap ?r1 ! self = ?c1"
    using assms(3) by (simp add: set_child_def)
  show ?thesis
    unfolding ClusterChild_UpdateLocked_def Let_def r1 h1
    using assms child_reports_in_progress [OF f]
    by (simp add: updated_child_def Let_def set_child_def)
qed

lemma foldl_latch_fields:
  "name (foldl (\<lambda>c rep. latch rep c) c reps) = name c"
  "shutdown (foldl (\<lambda>c rep. latch rep c) c reps) = shutdown c"
  "child_policy (foldl (\<lambda>c rep. latch rep c) c reps) = child_policy c"
  "delayed_removal_timer (foldl (\<lambda>c rep. latch rep c) c reps) = delayed_removal_timer c"
  "delayed_removal_timer_callback_pending (foldl (\<lambda>c rep. latch rep c) c reps) =
     delayed_removal_timer_callback_pending c"
  by (induction reps arbitrary: c) (simp_all add: latch_fields)

lemma foldl_latch_not_shutdown:
  "reports_ok reps \<Longrightarrow> connectivity_state c \<noteq> GRPC_CHANNEL_SHUTDOWN \<Longrightarrow>
   connectivity_state (foldl (\<lambda>c rep. latch rep c) c reps) \<noteq> GRPC_CHANNEL_SHUTDOWN"
  by (induction reps arbitrary: c) (simp_all add: reports_ok_def latch_fields)

lemma updated_child_fields:
  "name (updated_child cfg addresses args reps c) = name c"
  "shutdown (updated_child cfg addresses args reps c) = shutdown c"
  "\<not> delayed_removal_timer_callback_pending (updated_child cfg addresses args reps c)"
  "delayed_removal_timer (updated_child cfg addresses args reps c) =
     (if delayed_removal_timer_callback_pending c
      then TimerNotArmed else delayed_removal_timer c)"
  "child_policy (updated_child cfg addresses args reps c) =
     Some (LoadBalancingPolicy_call
             (PolicyUpdateLocked \<lparr>args_addresses = addresses, args_config = cfg, args_args = args\<rparr>)
             (case child_policy c of None \<Rightarrow> CreateChildPolicyLocked args | Some p \<Rightarrow> p))"
  by (simp_all add: updated_child_def Let_def foldl_latch_fields)

lemma updated_child_not_shutdown:
  "reports_ok reps \<Longrightarrow> connectivity_state c \<noteq> GRPC_CHANNEL_SHUTDOWN \<Longrightarrow>
   connectivity_state (updated_child cfg addresses args reps c) \<noteq> GRPC_CHANNEL_SHUTDOWN"
  by (simp add: updated_child_def Let_def foldl_latch_not_shutdown)

lemma updated_child_kept:
  "reports_ok reps \<Longrightarrow> child_kept c (updated_child cfg addresses args reps c)"
  by (simp add: child_kept_def updated_child_fields updated_child_not_shutdown)

lemma deactivated_kept: "child_kept c (deactivated now c)"
  by (simp add: child_kept_def deactivated_def)

lemma ClusterChild_DeactivateLocked_eq:
  "self < length (heap r) \<Longrightarrow>
   ClusterChild_DeactivateLocked now self r = Inr (set_child self (deactivated now (heap r ! self)) r)"
  by (simp add: ClusterChild_DeactivateLocked_def deactivated_def grpc_timer_init_def Let_def
      set_child_same)

lemma orphaned_fields:
  "shutdown (orphaned c)" "child_policy (orphaned c) = None" "picker_wrapper (orphaned c) = None"
  "name (orphaned c) = name c" "connectivity_state (orphaned c) = connectivity_state c"
  "delayed_removal_timer_callback_pending (orphaned c) = delayed_removal_timer_callback_pending c"
  "delayed_removal_timer (orphaned c) =
     (if delayed_removal_timer_callback_pending c then TimerNotArmed else delayed_removal_timer c)"
  by (simp_all add: orphaned_def)

lemma ClusterChild_Orphan_eq:
  assumes "self < length (heap r)" "child_policy (heap r ! self) \<noteq> None"
  shows "ClusterChild_Orphan self r =
           Inr ((set_child self (orphaned (heap r ! self)) r)
                  \<lparr>work_serializer := work_serializer r @ cancel_callbacks self (heap r ! self)\<rparr>)"
proof -
  let ?c = "heap r ! self"
  let ?r1 = "set_child self (?c\<lparr>child_policy := None, picker_wrapper := None\<rparr>) r"
  have 1: "self < length (heap ?r1)" using assms(1) by (simp add: set_child_def)
  show ?thesis
    unfolding ClusterChild_Orphan_def Let_def grpc_timer_cancel_eq [OF 1]
    using assms by (auto simp: orphaned_def cancel_callbacks_def set_child_def)
qed

lemma OnDelayedRemovalTimerLocked_eq:
  assumes self: "self < length (heap r)"
    and live: "\<not> shutdown (heap r ! self) \<Longrightarrow>
                map_of (children r) (name (heap r ! self)) = Some self \<and>
                child_policy (heap r ! self) \<noteq> None"
  shows "OnDelayedRemovalTimerLocked err self r =
           Inr (if GRPC_ERROR_IS_NONE err \<and> \<not> shutdown (heap r ! self)
                then set_child self
                       (orphaned ((heap r ! self)\<lparr>delayed_removal_timer_callback_pending := False\<rparr>))
                       (r\<lparr>children := AList.delete (name (heap r ! self)) (children r)\<rparr>)
                else set_child self
                       ((heap r ! self)\<lparr>delayed_removal_timer_callback_pending := False\<rparr>) r)"
proof (cases "GRPC_ERROR_IS_NONE err \<and> \<not> shutdown (heap r ! self)")
  case True
  with live have l: "map_of (children r) (name (heap r ! self)) = Some self"
    "child_policy (heap r ! self) \<noteq> None" by simp_all
  let ?c1 = "(heap r ! self)\<lparr>delayed_removal_timer_callback_pending := False\<rparr>"
  let ?r2 = "(set_child self ?c1 r)\<lparr>children := AList.delete (name (heap r ! self)) (children r)\<rparr>"
  have "self < length (heap ?r2)" "child_policy (heap ?r2 ! self) \<noteq> None"
    using self l(2) by (simp_all add: set_child_def)
  from ClusterChild_Orphan_eq [OF this]
  have "ClusterChild_Orphan self ?r2 =
          Inr (set_child self (orphaned ?c1)
                 (r\<lparr>children := AList.delete (name (heap r ! self)) (children r)\<rparr>))"
    using self by (simp add: set_child_def cancel_callbacks_def)
  with True self l(1) show ?thesis
    by (simp add: OnDelayedRemovalTimerLocked_def children_erase_def Let_def set_child_def)
next
  case False
  with self show ?thesis
    by (auto simp: OnDelayedRemovalTimerLocked_def Let_def)
qed

subsection \<open>The invariant holds in every run\<close>

lemma Helper_UpdateState_invariant:
  assumes inv: "invariant r" and self: "self < length (heap r)"
    and st: "st \<noteq> GRPC_CHANNEL_SHUTDOWN"
    and res: "Helper_UpdateState st status p self r = Inr r'"
  shows "invariant r'"
proof (cases "shutting_down r")
  case True
  with inv self res show ?thesis by (simp add: Helper_UpdateState_def)
next
  case False
  let ?r1 = "set_child self (latch (st, status, p) (heap r ! self)) r"
  from inv have wf: "wf r" and uip: "\<not> update_in_progress r"
    and pubs: "\<forall>pub \<in> set (channel_control_helper r). publication_ok pub"
    by (simp_all add: invariant_def)
  from wf self st have wf1: "wf ?r1" by (simp add: wf_latch)
  have r1: "\<not> update_in_progress ?r1"
    "\<forall>pub \<in> set (channel_control_helper ?r1). publication_ok pub"
    using uip pubs by (simp_all add: set_child_def)
  from res self False have "UpdateStateLocked ?r1 = Inr r'"
    by (simp add: Helper_UpdateState_eq)
  from UpdateStateLocked_published [OF r1(1) this]
  obtain st' cm where "r' = publish (st', aggregated_status st', cm) ?r1"
    by blast
  with invariant_publish [OF wf1 r1] show ?thesis by simp
qed

lemma Helper_UpdateState_returns:
  assumes inv: "invariant r" and self: "self < length (heap r)"
    and st: "st \<noteq> GRPC_CHANNEL_SHUTDOWN" and nsd: "\<not> shutting_down r"
    and cfg: "config r = Some cfg"
  shows "Helper_UpdateState st status p self r =
           (if configured_present cfg r
            then UpdateStateLocked (set_child self (latch (st, status, p) (heap r ! self)) r)
            else Inl NullDereference) \<and>
         (configured_present cfg r \<longrightarrow>
            (\<exists>cm. UpdateStateLocked (set_child self (latch (st, status, p) (heap r ! self)) r) =
               Inr (publish
                     (aggregate_of cfg ((heap r)[self := latch (st, status, p) (heap r ! self)])
                        (children r),
                      aggregated_status
                        (aggregate_of cfg ((heap r)[self := latch (st, status, p) (heap r ! self)])
                           (children r)), cm)
                     (set_child self (latch (st, status, p) (heap r ! self)) r))))"
proof -
  let ?r1 = "set_child self (latch (st, status, p) (heap r ! self)) r"
  from inv have wf: "wf r" and uip: "\<not> update_in_progress r"
    by (simp_all add: invariant_def)
  from wf self st have wf1: "wf ?r1" by (simp add: wf_latch)
  have r1: "\<not> update_in_progress ?r1" "config ?r1 = Some cfg"
    using uip cfg by (simp_all add: set_child_def)
  have cp: "configured_present cfg ?r1 = configured_present cfg r"
    by (simp add: configured_present_def set_child_def)
  have eq: "Helper_UpdateState st status p self r = UpdateStateLocked ?r1"
    by (rule Helper_UpdateState_eq [OF self nsd])
  show ?thesis
  proof (cases "configured_present cfg r")
    case True
    then have "configured_present cfg ?r1" by (simp add: cp)
    from UpdateStateLocked_wf [OF wf1 r1 this] True eq show ?thesis
      by (auto simp: set_child_def)
  next
    case False
    then have "\<not> configured_present cfg ?r1" by (simp add: cp)
    from UpdateStateLocked_wf_missing [OF wf1 r1 this] False eq show ?thesis by simp
  qed
qed

lemma for_each_child_inv:
  assumes step: "\<And>e r. e \<in> set ps \<Longrightarrow> J r \<Longrightarrow> \<exists>r'. f (snd e) r = Inr r' \<and> J r'"
    and "J r"
  shows "\<exists>r'. for_each_child f ps r = Inr r' \<and> J r'"
  using assms
proof (induction ps arbitrary: r)
  case Nil
  then show ?case by simp
next
  case (Cons e ps)
  obtain n a where e: "e = (n, a)" by (cases e)
  from Cons.prems(1) [of e r] Cons.prems(2) e obtain r1 where r1: "f a r = Inr r1" "J r1"
    by auto
  from Cons.IH [OF _ r1(2)] Cons.prems(1) obtain r' where "for_each_child f ps r1 = Inr r'" "J r'"
    by (metis list.set_intros(2))
  with r1 e show ?case by simp
qed

lemma call_child_policy_invariant:
  assumes inv: "invariant r" and e: "e \<in> set (children r)"
  shows "\<exists>p. child_policy (heap r ! snd e) = Some p \<and> snd e < length (heap r) \<and>
             invariant (set_child (snd e)
               ((heap r ! snd e)\<lparr>child_policy := Some (LoadBalancingPolicy_call call p)\<rparr>) r)"
proof -
  from inv have wf: "wf r" by (simp add: invariant_def)
  with e have ok: "child_ok (heap r) e" by (simp add: wf_def children_ok_def)
  then obtain p where p: "child_policy (heap r ! snd e) = Some p" and a: "snd e < length (heap r)"
    by (auto simp: child_ok_def)
  have "wf (set_child (snd e)
               ((heap r ! snd e)\<lparr>child_policy := Some (LoadBalancingPolicy_call call p)\<rparr>) r)"
    by (rule wf_modify [OF wf a]) (simp add: child_kept_def)
  with inv p a show ?thesis by (simp add: invariant_def set_child_def)
qed

lemma ExitIdleLocked_invariant:
  assumes inv: "invariant r"
  shows "\<exists>r'. ExitIdleLocked r = Inr r' \<and> invariant r' \<and> children r' = children r \<and>
              channel_control_helper r' = channel_control_helper r"
proof -
  let ?J = "\<lambda>r'. invariant r' \<and> children r' = children r \<and>
              channel_control_helper r' = channel_control_helper r"
  have "\<exists>r'. for_each_child ClusterChild_ExitIdleLocked (children r) r = Inr r' \<and> ?J r'"
  proof (rule for_each_child_inv [where J = ?J])
    fix e r0 assume e: "e \<in> set (children r)" and J: "?J r0"
    with call_child_policy_invariant [of r0 e PolicyExitIdleLocked]
    show "\<exists>r'. ClusterChild_ExitIdleLocked (snd e) r0 = Inr r' \<and> ?J r'"
      by (auto simp: ClusterChild_ExitIdleLocked_def Let_def set_child_def)
  qed (use inv in simp)
  then show ?thesis by (simp add: ExitIdleLocked_def)
qed

lemma ResetBackoffLocked_invariant:
  assumes inv: "invariant r"
  shows "\<exists>r'. ResetBackoffLocked r = Inr r' \<and> invariant r' \<and> children r' = children r \<and>
              channel_control_helper r' = channel_control_helper r"
proof -
  let ?J = "\<lambda>r'. invariant r' \<and> children r' = children r \<and>
              channel_control_helper r' = channel_control_helper r"
  have "\<exists>r'. for_each_child ClusterChild_ResetBackoffLocked (children r) r = Inr r' \<and> ?J r'"
  proof (rule for_each_child_inv [where J = ?J])
    fix e r0 assume e: "e \<in> set (children r)" and J: "?J r0"
    with call_child_policy_invariant [of r0 e PolicyResetBackoffLocked]
    show "\<exists>r'. ClusterChild_ResetBackoffLocked (snd e) r0 = Inr r' \<and> ?J r'"
      by (auto simp: ClusterChild_ResetBackoffLocked_def Let_def set_child_def)
  qed (use inv in simp)
  then show ?thesis by (simp add: ResetBackoffLocked_def)
qed

lemma timer_expires_invariant:
  assumes inv: "invariant r" and self: "self < length (heap r)"
  shows "invariant (timer_expires self r)"
proof -
  let ?r1 = "set_child self ((heap r ! self)\<lparr>delayed_removal_timer := TimerNotArmed\<rparr>) r"
  from inv have wf: "wf r" by (simp add: invariant_def)
  have "wf ?r1" by (rule wf_modify [OF wf self]) (simp add: child_kept_def)
  moreover have "self < length (heap ?r1)" using self by (simp add: set_child_def)
  ultimately have "wf (?r1\<lparr>work_serializer := work_serializer ?r1 @ [(self, OkStatus)]\<rparr>)"
    by (rule wf_callback_added)
  then have "wf (timer_expires self r)"
    by (simp add: timer_expires_def OnDelayedRemovalTimer_def)
  with inv show ?thesis
    by (rule invariant_fields) (simp_all add: timer_expires_def OnDelayedRemovalTimer_def set_child_def)
qed

lemma OnDelayedRemovalTimerLocked_wf:
  assumes wf: "wf r" and self: "self < length (heap r)"
  shows "\<exists>r'. OnDelayedRemovalTimerLocked err self r = Inr r' \<and> wf r' \<and>
              update_in_progress r' = update_in_progress r \<and>
              channel_control_helper r' = channel_control_helper r \<and>
              r' = (if GRPC_ERROR_IS_NONE err \<and> \<not> shutdown (heap r ! self)
                    then set_child self
                           (orphaned ((heap r ! self)\<lparr>delayed_removal_timer_callback_pending := False\<rparr>))
                           (r\<lparr>children := AList.delete (name (heap r ! self)) (children r)\<rparr>)
                    else set_child self
                           ((heap r ! self)\<lparr>delayed_removal_timer_callback_pending := False\<rparr>) r)"
proof -
  let ?c = "heap r ! self"
  let ?c1 = "?c\<lparr>delayed_removal_timer_callback_pending := False\<rparr>"
  have live: "\<not> shutdown ?c \<Longrightarrow>
                map_of (children r) (name ?c) = Some self \<and> child_policy ?c \<noteq> None"
    using wf_live [OF wf self] by simp
  note eq = OnDelayedRemovalTimerLocked_eq [OF self live, of err]
  show ?thesis
  proof (cases "GRPC_ERROR_IS_NONE err \<and> \<not> shutdown ?c")
    case True
    from wf_live [OF wf self] True have e: "(name ?c, self) \<in> set (children r)" by simp
    have "wf (set_child self (orphaned ?c1) (r\<lparr>children := AList.delete (name ?c) (children r)\<rparr>))"
      by (rule wf_erase [OF wf e]) (simp add: orphaned_fields)
    with True eq show ?thesis by (simp add: set_child_def)
  next
    case False
    have "wf (set_child self ?c1 r)"
      by (rule wf_modify [OF wf self]) (simp add: child_kept_def)
    with False eq show ?thesis by (auto simp add: set_child_def)
  qed
qed

lemma run_callback_invariant:
  assumes inv: "invariant r" and i: "i < length (work_serializer r)"
  shows "\<exists>r'. run_callback i r = Inr r' \<and> invariant r'"
proof -
  let ?r0 = "r\<lparr>work_serializer := take i (work_serializer r) @ drop (Suc i) (work_serializer r)\<rparr>"
  let ?self = "fst (work_serializer r ! i)"
  from inv have wf: "wf r" by (simp add: invariant_def)
  then have wf0: "wf ?r0" by (rule wf_callback_removed)
  from i have "work_serializer r ! i \<in> set (work_serializer r)" by simp
  with wf have "?self < length (heap ?r0)" by (simp add: wf_def callbacks_ok_def)
  from OnDelayedRemovalTimerLocked_wf [OF wf0 this, of "snd (work_serializer r ! i)"]
  obtain r' where r': "run_callback i r = Inr r'" "wf r'"
    "update_in_progress r' = update_in_progress ?r0"
    "channel_control_helper r' = channel_control_helper ?r0"
    unfolding run_callback_def by (elim exE conjE)
  from inv r'(2) have "invariant r'"
    by (rule invariant_fields) (simp_all add: r'(3,4))
  with r'(1) show ?thesis by blast
qed

lemma orphan_all:
  assumes "distinct (map snd ps)"
    and "\<forall>e \<in> set ps. snd e < length (heap r) \<and> child_policy (heap r ! snd e) \<noteq> None"
  shows "\<exists>h'. for_each_child ClusterChild_Orphan ps r =
                Inr (r\<lparr>heap := h',
                       work_serializer := work_serializer r @
                         concat (map (\<lambda>e. cancel_callbacks (snd e) (heap r ! snd e)) ps)\<rparr>) \<and>
              length h' = length (heap r) \<and>
              (\<forall>b < length h'. h' ! b =
                 (if b \<in> snd ` set ps then orphaned (heap r ! b) else heap r ! b))"
  using assms
proof (induction ps arbitrary: r)
  case Nil
  then show ?case by (intro exI [of _ "heap r"]) simp
next
  case (Cons e ps)
  obtain n a where e: "e = (n, a)" by (cases e)
  let ?r1 = "(set_child a (orphaned (heap r ! a)) r)
               \<lparr>work_serializer := work_serializer r @ cancel_callbacks a (heap r ! a)\<rparr>"
  from Cons.prems e have a: "a < length (heap r)" "child_policy (heap r ! a) \<noteq> None"
    "a \<notin> snd ` set ps" "distinct (map snd ps)"
    by auto
  have r1: "ClusterChild_Orphan a r = Inr ?r1"
    using a by (simp add: ClusterChild_Orphan_eq)
  have nth: "heap ?r1 ! snd e' = heap r ! snd e'" if "e' \<in> set ps" for e'
  proof -
    from that a(3) have "snd e' \<noteq> a" by auto
    then show ?thesis by (simp add: set_child_def)
  qed
  have "\<forall>e \<in> set ps. snd e < length (heap ?r1) \<and> child_policy (heap ?r1 ! snd e) \<noteq> None"
  proof
    fix e' assume e': "e' \<in> set ps"
    with Cons.prems(2) have "snd e' < length (heap r)" "child_policy (heap r ! snd e') \<noteq> None"
      by simp_all
    moreover have "length (heap ?r1) = length (heap r)" by (simp add: set_child_def)
    ultimately show "snd e' < length (heap ?r1) \<and> child_policy (heap ?r1 ! snd e') \<noteq> None"
      by (simp only: nth [OF e']) simp
  qed
  from Cons.IH [OF a(4) this] obtain h' where h':
    "for_each_child ClusterChild_Orphan ps ?r1 =
       Inr (?r1\<lparr>heap := h',
                work_serializer := work_serializer ?r1 @
                  concat (map (\<lambda>e. cancel_callbacks (snd e) (heap ?r1 ! snd e)) ps)\<rparr>)"
    "length h' = length (heap ?r1)"
    "\<forall>b < length h'. h' ! b = (if b \<in> snd ` set ps then orphaned (heap ?r1 ! b) else heap ?r1 ! b)"
    by blast
  have cc: "map (\<lambda>e. cancel_callbacks (snd e) (heap ?r1 ! snd e)) ps =
            map (\<lambda>e. cancel_callbacks (snd e) (heap r ! snd e)) ps"
    by (rule map_cong [OF refl]) (simp only: nth)
  have "for_each_child ClusterChild_Orphan (e # ps) r =
          Inr (r\<lparr>heap := h',
                 work_serializer := work_serializer r @
                   concat (map (\<lambda>e. cancel_callbacks (snd e) (heap r ! snd e)) (e # ps))\<rparr>)"
    using e r1 h'(1) unfolding cc by (simp add: set_child_def)
  moreover have "length h' = length (heap r)"
    using h'(2) by (simp add: set_child_def)
  moreover have "\<forall>b < length h'. h' ! b =
                   (if b \<in> snd ` set (e # ps) then orphaned (heap r ! b) else heap r ! b)"
  proof (intro allI impI)
    fix b assume b: "b < length h'"
    show "h' ! b = (if b \<in> snd ` set (e # ps) then orphaned (heap r ! b) else heap r ! b)"
    proof (cases "b = a")
      case True
      with h'(3) b a e show ?thesis by (simp add: set_child_def)
    next
      case False
      with h'(3) b e show ?thesis by (simp add: set_child_def)
    qed
  qed
  ultimately show ?case by blast
qed

lemma ShutdownLocked_invariant:
  assumes inv: "invariant r"
  shows "\<exists>h'. ShutdownLocked r =
                Inr (r\<lparr>shutting_down := True, heap := h', children := [],
                       work_serializer := work_serializer r @
                         concat (map (\<lambda>e. cancel_callbacks (snd e) (heap r ! snd e)) (children r))\<rparr>) \<and>
              invariant (r\<lparr>shutting_down := True, heap := h', children := [],
                       work_serializer := work_serializer r @
                         concat (map (\<lambda>e. cancel_callbacks (snd e) (heap r ! snd e)) (children r))\<rparr>) \<and>
              length h' = length (heap r) \<and>
              (\<forall>b < length h'. h' ! b =
                 (if b \<in> snd ` set (children r) then orphaned (heap r ! b) else heap r ! b))"
proof -
  let ?r0 = "r\<lparr>shutting_down := True\<rparr>"
  let ?ws = "work_serializer r @
               concat (map (\<lambda>e. cancel_callbacks (snd e) (heap r ! snd e)) (children r))"
  from inv have wf: "wf r" by (simp add: invariant_def)
  then have d: "distinct (map snd (children r))"
    and ok: "\<forall>e \<in> set (children r). snd e < length (heap ?r0) \<and> child_policy (heap ?r0 ! snd e) \<noteq> None"
    by (auto simp: wf_def children_ok_def child_ok_def)
  from orphan_all [OF d ok] obtain h' where h':
    "for_each_child ClusterChild_Orphan (children r) ?r0 = Inr (?r0\<lparr>heap := h', work_serializer := ?ws\<rparr>)"
    "length h' = length (heap r)"
    "\<forall>b < length h'. h' ! b = (if b \<in> snd ` set (children r) then orphaned (heap r ! b) else heap r ! b)"
    by auto
  let ?r' = "r\<lparr>shutting_down := True, heap := h', children := [], work_serializer := ?ws\<rparr>"
  have 1: "ShutdownLocked r = Inr ?r'"
    using h'(1) by (simp add: ShutdownLocked_def)
  have "orphans_ok ?r'"
    using wf h'(2,3) by (auto simp: orphans_ok_def wf_def orphaned_fields)
  moreover have "callbacks_ok ?r'"
  proof -
    have "fst cb < length (heap r)" if "cb \<in> set ?ws" for cb
    proof (cases "cb \<in> set (work_serializer r)")
      case True
      with wf show ?thesis by (simp add: wf_def callbacks_ok_def)
    next
      case False
      with that obtain e where e: "e \<in> set (children r)"
        "cb \<in> set (cancel_callbacks (snd e) (heap r ! snd e))" by auto
      with cancel_callbacks_ok [of "snd e" "heap r ! snd e"] have "fst cb = snd e" by simp
      with ok e(1) show ?thesis by simp
    qed
    then show ?thesis by (simp add: callbacks_ok_def h'(2))
  qed
  moreover have "config ?r' = None \<longrightarrow> heap ?r' = []"
    using wf h'(2) by (auto simp add: wf_def)
  ultimately have "wf ?r'"
    by (simp add: wf_def children_ok_def)
  with inv have "invariant ?r'" by (simp add: invariant_def)
  with 1 h'(2,3) show ?thesis by blast
qed

subsection \<open>\<^verbatim>\<open>UpdateLocked\<close>\<close>

lemma deactivate_absent_eq:
  assumes "distinct (map snd ps)" and "\<forall>e \<in> set ps. snd e < length (heap r)"
  shows "\<exists>h'. deactivate_absent now cfg ps r = Inr (r\<lparr>heap := h'\<rparr>) \<and>
              length h' = length (heap r) \<and>
              (\<forall>b < length h'. h' ! b =
                 (if b \<in> snd ` {e \<in> set ps. map_of cfg (fst e) = None}
                  then deactivated now (heap r ! b) else heap r ! b))"
  using assms
proof (induction ps arbitrary: r)
  case Nil
  then show ?case by (intro exI [of _ "heap r"]) simp
next
  case (Cons e ps)
  obtain n a where e: "e = (n, a)" by (cases e)
  from Cons.prems e have a: "a < length (heap r)" "a \<notin> snd ` set ps" "distinct (map snd ps)"
    and lt: "\<forall>e \<in> set ps. snd e < length (heap r)"
    by auto
  show ?case
  proof (cases "map_of cfg n = None")
    case False
    from Cons.IH [OF a(3) lt] obtain h' where h':
      "deactivate_absent now cfg ps r = Inr (r\<lparr>heap := h'\<rparr>)" "length h' = length (heap r)"
      "\<forall>b < length h'. h' ! b =
         (if b \<in> snd ` {e \<in> set ps. map_of cfg (fst e) = None}
          then deactivated now (heap r ! b) else heap r ! b)"
      by blast
    have s: "{e' \<in> set (e # ps). map_of cfg (fst e') = None} =
             {e' \<in> set ps. map_of cfg (fst e') = None}"
      using False e by auto
    have "deactivate_absent now cfg (e # ps) r = Inr (r\<lparr>heap := h'\<rparr>)"
      using h'(1) False e by auto
    with h'(2,3) show ?thesis unfolding s by (intro exI [of _ h']) simp
  next
    case True
    let ?r1 = "set_child a (deactivated now (heap r ! a)) r"
    have r1: "ClusterChild_DeactivateLocked now a r = Inr ?r1"
      using a(1) by (rule ClusterChild_DeactivateLocked_eq)
    have lt1: "\<forall>e \<in> set ps. snd e < length (heap ?r1)"
      using lt by (simp add: set_child_def)
    from Cons.IH [OF a(3) lt1] obtain h' where h':
      "deactivate_absent now cfg ps ?r1 = Inr (?r1\<lparr>heap := h'\<rparr>)" "length h' = length (heap ?r1)"
      "\<forall>b < length h'. h' ! b =
         (if b \<in> snd ` {e \<in> set ps. map_of cfg (fst e) = None}
          then deactivated now (heap ?r1 ! b) else heap ?r1 ! b)"
      by blast
    have "{e' \<in> set (e # ps). map_of cfg (fst e') = None} =
          insert (n, a) {e' \<in> set ps. map_of cfg (fst e') = None}"
      using True e by auto
    then have s: "snd ` {e' \<in> set (e # ps). map_of cfg (fst e') = None} =
             insert a (snd ` {e' \<in> set ps. map_of cfg (fst e') = None})"
      by simp
    have na: "a \<notin> snd ` {e' \<in> set ps. map_of cfg (fst e') = None}"
      using a(2) by auto
    have "deactivate_absent now cfg (e # ps) r = Inr (r\<lparr>heap := h'\<rparr>)"
      using e True r1 h'(1) by (simp add: set_child_def)
    moreover have "length h' = length (heap r)"
      using h'(2) by (simp add: set_child_def)
    moreover have "\<forall>b < length h'. h' ! b =
                     (if b \<in> snd ` {e' \<in> set (e # ps). map_of cfg (fst e') = None}
                      then deactivated now (heap r ! b) else heap r ! b)"
    proof (intro allI impI)
      fix b assume b: "b < length h'"
      show "h' ! b = (if b \<in> snd ` {e' \<in> set (e # ps). map_of cfg (fst e') = None}
                      then deactivated now (heap r ! b) else heap r ! b)"
      proof (cases "b = a")
        case True
        with h'(3) b na a(1) show ?thesis unfolding s by (simp add: set_child_def)
      next
        case False
        with h'(3) b show ?thesis unfolding s by (simp add: set_child_def)
      qed
    qed
    ultimately show ?thesis by blast
  qed
qed

lemma update_children_step:
  assumes wf: "wf r" and flags: "update_in_progress r" "\<not> shutting_down r"
    and cfg: "config r \<noteq> None" and reps: "reports_ok (reps n)"
  shows "\<exists>r2 a. update_children args reps ((n, c) # ps) r = update_children args reps ps r2 \<and>
              wf r2 \<and> update_in_progress r2 \<and> \<not> shutting_down r2 \<and> config r2 = config r \<and>
              channel_control_helper r2 = channel_control_helper r \<and>
              (n, a) \<in> set (children r2) \<and>
              (\<forall>a0. map_of (children r) n = Some a0 \<longrightarrow> a = a0) \<and>
              heap r2 ! a =
                updated_child c (args_addresses args) (args_args args) (reps n)
                  (case map_of (children r) n of
                     None \<Rightarrow> ClusterChild_new n
                   | Some a0 \<Rightarrow> heap r ! a0) \<and>
              (\<forall>e \<in> set (children r). e \<in> set (children r2) \<and>
                 (fst e \<noteq> n \<longrightarrow> heap r2 ! snd e = heap r ! snd e)) \<and>
              (\<forall>m. m \<noteq> n \<longrightarrow> map_of (children r2) m = map_of (children r) m)"
proof (cases "map_of (children r) n")
  case (Some a)
  then have e: "(n, a) \<in> set (children r)" by (rule map_of_SomeD)
  with wf have ok: "child_ok (heap r) (n, a)" by (simp add: wf_def children_ok_def)
  then have a: "a < length (heap r)" by (simp add: child_ok_def)
  from wf have d: "distinct (map snd (children r))" by (simp add: wf_def children_ok_def)
  let ?c' = "updated_child c (args_addresses args) (args_args args) (reps n) (heap r ! a)"
  let ?r2 = "(set_child a ?c' r)
               \<lparr>work_serializer := work_serializer r @ cancel_callbacks a (heap r ! a)\<rparr>"
  have "wf (set_child a ?c' r)"
    by (rule wf_modify [OF wf a]) (rule updated_child_kept [OF reps])
  moreover have "\<forall>cb \<in> set (cancel_callbacks a (heap r ! a)). fst cb < length (heap (set_child a ?c' r))"
    using a by (simp add: cancel_callbacks_def set_child_def)
  ultimately have "wf ((set_child a ?c' r)
      \<lparr>work_serializer := work_serializer (set_child a ?c' r) @ cancel_callbacks a (heap r ! a)\<rparr>)"
    by (rule wf_callbacks_added)
  then have 1: "wf ?r2" by (simp add: set_child_def)
  have 2: "update_children args reps ((n, c) # ps) r = update_children args reps ps ?r2"
    using Some ClusterChild_UpdateLocked_in_progress [OF flags a] by simp
  have 3: "\<forall>e \<in> set (children r). e \<in> set (children ?r2) \<and>
             (fst e \<noteq> n \<longrightarrow> heap ?r2 ! snd e = heap r ! snd e)"
  proof
    fix e' assume e': "e' \<in> set (children r)"
    have "heap ?r2 ! snd e' = heap r ! snd e'" if "fst e' \<noteq> n"
    proof -
      from that have "e' \<noteq> (n, a)" by auto
      with snd_inj_entry [OF d e' e] have "snd e' \<noteq> a" by auto
      then show ?thesis by (simp add: set_child_def)
    qed
    with e' show "e' \<in> set (children ?r2) \<and> (fst e' \<noteq> n \<longrightarrow> heap ?r2 ! snd e' = heap r ! snd e')"
      by (simp add: set_child_def)
  qed
  have 4: "heap ?r2 ! a = ?c'" using a by (simp add: set_child_def)
  show ?thesis
  proof (intro exI [of _ ?r2] exI [of _ a] conjI)
    show "update_children args reps ((n, c) # ps) r = update_children args reps ps ?r2" by (rule 2)
    show "wf ?r2" by (rule 1)
    show "update_in_progress ?r2" "\<not> shutting_down ?r2" "config ?r2 = config r"
      "channel_control_helper ?r2 = channel_control_helper r"
      using flags by (simp_all add: set_child_def)
    show "(n, a) \<in> set (children ?r2)" using e by (simp add: set_child_def)
    show "\<forall>a0. map_of (children r) n = Some a0 \<longrightarrow> a = a0" using Some by simp
    show "heap ?r2 ! a = updated_child c (args_addresses args) (args_args args) (reps n)
            (case map_of (children r) n of None \<Rightarrow> ClusterChild_new n | Some a0 \<Rightarrow> heap r ! a0)"
      using 4 Some by simp
    show "\<forall>e \<in> set (children r). e \<in> set (children ?r2) \<and>
             (fst e \<noteq> n \<longrightarrow> heap ?r2 ! snd e = heap r ! snd e)" by (rule 3)
    show "\<forall>m. m \<noteq> n \<longrightarrow> map_of (children ?r2) m = map_of (children r) m"
      by (simp add: set_child_def)
  qed
next
  case None
  let ?a = "length (heap r)"
  let ?r1 = "r\<lparr>children := AList.update n ?a (children r), heap := heap r @ [ClusterChild_new n]\<rparr>"
  let ?c' = "updated_child c (args_addresses args) (args_args args) (reps n) (ClusterChild_new n)"
  let ?r2 = "r\<lparr>children := children r @ [(n, ?a)], heap := heap r @ [?c']\<rparr>"
  have r1: "update_in_progress ?r1" "\<not> shutting_down ?r1" "?a < length (heap ?r1)"
    using flags by simp_all
  have new: "name (ClusterChild_new n) = n" "\<not> shutdown (ClusterChild_new n)"
    "connectivity_state (ClusterChild_new n) \<noteq> GRPC_CHANNEL_SHUTDOWN"
    "\<not> delayed_removal_timer_callback_pending (ClusterChild_new n)"
    by (simp_all add: ClusterChild_new_def)
  have "(set_child ?a ?c' ?r1)
          \<lparr>work_serializer := work_serializer ?r1 @ cancel_callbacks ?a (heap ?r1 ! ?a)\<rparr> = ?r2"
    using None new(4) by (simp add: set_child_def update_absent cancel_callbacks_def)
  with ClusterChild_UpdateLocked_in_progress [OF r1, of c "args_addresses args" "args_args args" "reps n"]
  have 2: "update_children args reps ((n, c) # ps) r = update_children args reps ps ?r2"
    using None by simp
  have 1: "wf ?r2"
    using new reps
    by (intro wf_new_child [OF wf None cfg flags(2)])
      (simp_all add: updated_child_fields updated_child_not_shutdown)
  from wf have lt: "e \<in> set (children r) \<Longrightarrow> snd e < length (heap r)" for e
    by (auto simp: wf_def children_ok_def child_ok_def)
  show ?thesis
  proof (intro exI [of _ ?r2] exI [of _ ?a] conjI)
    show "update_children args reps ((n, c) # ps) r = update_children args reps ps ?r2" by (rule 2)
    show "wf ?r2" by (rule 1)
    show "update_in_progress ?r2" "\<not> shutting_down ?r2" "config ?r2 = config r"
      "channel_control_helper ?r2 = channel_control_helper r"
      using flags by simp_all
    show "(n, ?a) \<in> set (children ?r2)" by simp
    show "\<forall>a0. map_of (children r) n = Some a0 \<longrightarrow> ?a = a0" using None by simp
    show "heap ?r2 ! ?a = updated_child c (args_addresses args) (args_args args) (reps n)
            (case map_of (children r) n of None \<Rightarrow> ClusterChild_new n | Some a0 \<Rightarrow> heap r ! a0)"
      using None by simp
    show "\<forall>e \<in> set (children r). e \<in> set (children ?r2) \<and>
             (fst e \<noteq> n \<longrightarrow> heap ?r2 ! snd e = heap r ! snd e)"
      using lt by (simp add: nth_append)
    show "\<forall>m. m \<noteq> n \<longrightarrow> map_of (children ?r2) m = map_of (children r) m"
      by (simp add: map_add_def split: option.splits)
  qed
qed

lemma update_children_loop:
  assumes "wf r" "update_in_progress r" "\<not> shutting_down r" "config r \<noteq> None"
    "\<forall>e \<in> set ps. reports_ok (reps (fst e))"
  shows "\<exists>r'. update_children args reps ps r = Inr r' \<and> wf r' \<and> update_in_progress r' \<and>
              \<not> shutting_down r' \<and> config r' = config r \<and>
              channel_control_helper r' = channel_control_helper r \<and>
              (\<forall>e \<in> set (children r). e \<in> set (children r') \<and>
                 (fst e \<notin> fst ` set ps \<longrightarrow> heap r' ! snd e = heap r ! snd e)) \<and>
              (\<forall>n \<in> fst ` set ps. map_of (children r') n \<noteq> None) \<and>
              (distinct (map fst ps) \<longrightarrow>
                 (\<forall>e \<in> set ps. \<exists>a. map_of (children r') (fst e) = Some a \<and>
                    (\<forall>a0. map_of (children r) (fst e) = Some a0 \<longrightarrow> a = a0) \<and>
                    heap r' ! a =
                      updated_child (snd e) (args_addresses args) (args_args args) (reps (fst e))
                        (case map_of (children r) (fst e) of
                           None \<Rightarrow> ClusterChild_new (fst e)
                         | Some a0 \<Rightarrow> heap r ! a0)))"
  using assms
proof (induction ps arbitrary: r)
  case Nil
  then show ?case by simp
next
  case (Cons e ps)
  obtain n c where e: "e = (n, c)" by (cases e)
  from Cons.prems(5) e have reps: "reports_ok (reps n)" "\<forall>e \<in> set ps. reports_ok (reps (fst e))"
    by simp_all
  from update_children_step [where r = r and reps = reps and n = n and args = args and c = c
      and ps = ps, OF Cons.prems(1,2,3,4) reps(1)]
  obtain r2 a where r2: "update_children args reps ((n, c) # ps) r = update_children args reps ps r2"
    "wf r2" "update_in_progress r2" "\<not> shutting_down r2" "config r2 = config r"
    "channel_control_helper r2 = channel_control_helper r"
    "(n, a) \<in> set (children r2)"
    "\<forall>a0. map_of (children r) n = Some a0 \<longrightarrow> a = a0"
    "heap r2 ! a = updated_child c (args_addresses args) (args_args args) (reps n)
       (case map_of (children r) n of None \<Rightarrow> ClusterChild_new n | Some a0 \<Rightarrow> heap r ! a0)"
    "\<forall>e \<in> set (children r). e \<in> set (children r2) \<and>
       (fst e \<noteq> n \<longrightarrow> heap r2 ! snd e = heap r ! snd e)"
    "\<forall>m. m \<noteq> n \<longrightarrow> map_of (children r2) m = map_of (children r) m"
    by (elim exE conjE)
  from r2(5) Cons.prems(4) have cfg2: "config r2 \<noteq> None" by simp
  from Cons.IH [OF r2(2,3,4) cfg2 reps(2)]
  obtain r' where r': "update_children args reps ps r2 = Inr r'" "wf r'" "update_in_progress r'"
    "\<not> shutting_down r'" "config r' = config r2"
    "channel_control_helper r' = channel_control_helper r2"
    "\<forall>e \<in> set (children r2). e \<in> set (children r') \<and>
       (fst e \<notin> fst ` set ps \<longrightarrow> heap r' ! snd e = heap r2 ! snd e)"
    "\<forall>n \<in> fst ` set ps. map_of (children r') n \<noteq> None"
    "distinct (map fst ps) \<longrightarrow>
       (\<forall>e \<in> set ps. \<exists>a. map_of (children r') (fst e) = Some a \<and>
          (\<forall>a0. map_of (children r2) (fst e) = Some a0 \<longrightarrow> a = a0) \<and>
          heap r' ! a =
            updated_child (snd e) (args_addresses args) (args_args args) (reps (fst e))
              (case map_of (children r2) (fst e) of
                 None \<Rightarrow> ClusterChild_new (fst e)
               | Some a0 \<Rightarrow> heap r2 ! a0))"
    by (elim exE conjE)
  from r'(2) have d': "distinct (map fst (children r'))" by (simp add: wf_def children_ok_def)
  from r2(7) r'(7) have na': "(n, a) \<in> set (children r')" by blast
  have A: "\<forall>e' \<in> set (children r). e' \<in> set (children r') \<and>
             (fst e' \<notin> fst ` set (e # ps) \<longrightarrow> heap r' ! snd e' = heap r ! snd e')"
  proof
    fix e' assume e': "e' \<in> set (children r)"
    with r2(10) have e2: "e' \<in> set (children r2)" by blast
    with r'(7) have e3: "e' \<in> set (children r')" by blast
    have "heap r' ! snd e' = heap r ! snd e'" if "fst e' \<notin> fst ` set (e # ps)"
    proof -
      from that e have "fst e' \<noteq> n" "fst e' \<notin> fst ` set ps" by auto
      with r2(10) r'(7) e' e2 show ?thesis by simp
    qed
    with e3 show "e' \<in> set (children r') \<and>
             (fst e' \<notin> fst ` set (e # ps) \<longrightarrow> heap r' ! snd e' = heap r ! snd e')" by blast
  qed
  have B: "\<forall>m \<in> fst ` set (e # ps). map_of (children r') m \<noteq> None"
  proof
    fix m assume m: "m \<in> fst ` set (e # ps)"
    show "map_of (children r') m \<noteq> None"
    proof (cases "m = n")
      case True
      from na' have "n \<in> fst ` set (children r')" by force
      with True show ?thesis by (simp add: map_of_eq_None_iff)
    next
      case False
      with m e have "m \<in> fst ` set ps" by auto
      with r'(8) show ?thesis by blast
    qed
  qed
  have C: "\<forall>e' \<in> set (e # ps). \<exists>a. map_of (children r') (fst e') = Some a \<and>
             (\<forall>a0. map_of (children r) (fst e') = Some a0 \<longrightarrow> a = a0) \<and>
             heap r' ! a =
               updated_child (snd e') (args_addresses args) (args_args args) (reps (fst e'))
                 (case map_of (children r) (fst e') of
                    None \<Rightarrow> ClusterChild_new (fst e')
                  | Some a0 \<Rightarrow> heap r ! a0)"
    if dist: "distinct (map fst (e # ps))"
  proof
    fix e' assume e': "e' \<in> set (e # ps)"
    from dist e have nps: "n \<notin> fst ` set ps" and dps: "distinct (map fst ps)" by auto
    show "\<exists>a. map_of (children r') (fst e') = Some a \<and>
             (\<forall>a0. map_of (children r) (fst e') = Some a0 \<longrightarrow> a = a0) \<and>
             heap r' ! a =
               updated_child (snd e') (args_addresses args) (args_args args) (reps (fst e'))
                 (case map_of (children r) (fst e') of
                    None \<Rightarrow> ClusterChild_new (fst e')
                  | Some a0 \<Rightarrow> heap r ! a0)"
    proof (cases "e' = e")
      case True
      from d' na' have 1: "map_of (children r') n = Some a" by simp
      from r'(7) r2(7) nps have "heap r' ! a = heap r2 ! a" by force
      with r2(9) have 2: "heap r' ! a = updated_child c (args_addresses args) (args_args args) (reps n)
         (case map_of (children r) n of None \<Rightarrow> ClusterChild_new n | Some a0 \<Rightarrow> heap r ! a0)"
        by simp
      from True e have ee: "fst e' = n" "snd e' = c" by simp_all
      from 1 2 r2(8) show ?thesis unfolding ee by blast
    next
      case False
      with e' have mem: "e' \<in> set ps" by simp
      with nps have ne: "fst e' \<noteq> n" by force
      from r'(9) dps mem obtain a' where a': "map_of (children r') (fst e') = Some a'"
        "\<forall>a0. map_of (children r2) (fst e') = Some a0 \<longrightarrow> a' = a0"
        "heap r' ! a' =
            updated_child (snd e') (args_addresses args) (args_args args) (reps (fst e'))
              (case map_of (children r2) (fst e') of
                 None \<Rightarrow> ClusterChild_new (fst e')
               | Some a0 \<Rightarrow> heap r2 ! a0)"
        by blast
      from r2(11) ne have m: "map_of (children r2) (fst e') = map_of (children r) (fst e')" by simp
      have "(case map_of (children r2) (fst e') of
                 None \<Rightarrow> ClusterChild_new (fst e') | Some a0 \<Rightarrow> heap r2 ! a0) =
            (case map_of (children r) (fst e') of
                 None \<Rightarrow> ClusterChild_new (fst e') | Some a0 \<Rightarrow> heap r ! a0)"
      proof (cases "map_of (children r) (fst e')")
        case None
        with m show ?thesis by simp
      next
        case (Some a0)
        then have "(fst e', a0) \<in> set (children r)" by (rule map_of_SomeD)
        with r2(10) ne have "heap r2 ! a0 = heap r ! a0" by force
        with Some m show ?thesis by simp
      qed
      with a'(3) have "heap r' ! a' =
            updated_child (snd e') (args_addresses args) (args_args args) (reps (fst e'))
              (case map_of (children r) (fst e') of
                 None \<Rightarrow> ClusterChild_new (fst e')
               | Some a0 \<Rightarrow> heap r ! a0)"
        by (simp only:)
      with a'(1,2) m show ?thesis by simp
    qed
  qed
  show ?case
  proof (intro exI [of _ r'] conjI)
    show "update_children args reps (e # ps) r = Inr r'" using r2(1) r'(1) e by simp
    show "wf r'" "update_in_progress r'" "\<not> shutting_down r'" by (rule r')+
    show "config r' = config r" using r'(5) r2(5) by simp
    show "channel_control_helper r' = channel_control_helper r" using r'(6) r2(6) by simp
    show "\<forall>e' \<in> set (children r). e' \<in> set (children r') \<and>
             (fst e' \<notin> fst ` set (e # ps) \<longrightarrow> heap r' ! snd e' = heap r ! snd e')" by (rule A)
    show "\<forall>m \<in> fst ` set (e # ps). map_of (children r') m \<noteq> None" by (rule B)
    show "distinct (map fst (e # ps)) \<longrightarrow>
            (\<forall>e' \<in> set (e # ps). \<exists>a. map_of (children r') (fst e') = Some a \<and>
             (\<forall>a0. map_of (children r) (fst e') = Some a0 \<longrightarrow> a = a0) \<and>
             heap r' ! a =
               updated_child (snd e') (args_addresses args) (args_args args) (reps (fst e'))
                 (case map_of (children r) (fst e') of
                    None \<Rightarrow> ClusterChild_new (fst e')
                  | Some a0 \<Rightarrow> heap r ! a0))"
      using C by blast
  qed
qed

lemma UpdateLocked_shut_down: "shutting_down r \<Longrightarrow> UpdateLocked args now reps r = Inr r"
  by (simp add: UpdateLocked_def)

lemma UpdateLocked_result:
  assumes inv: "invariant r" and nsd: "\<not> shutting_down r"
    and reps: "\<forall>e \<in> set (args_config args). reports_ok (reps (fst e))"
  shows "\<exists>r' cm. UpdateLocked args now reps r = Inr r' \<and> invariant r' \<and>
           config r' = Some (args_config args) \<and> \<not> shutting_down r' \<and>
           channel_control_helper r' = channel_control_helper r @
             [(aggregate_of (args_config args) (heap r') (children r'),
               aggregated_status (aggregate_of (args_config args) (heap r') (children r')), cm)] \<and>
           fst ` set cm = fst ` set (args_config args) \<and>
           (\<forall>n \<in> fst ` set (args_config args).
              map_of cm n = Some (wrapper_for (children r') (heap r') n)) \<and>
           configured_present (args_config args) r' \<and>
           (\<forall>e \<in> set (children r). e \<in> set (children r') \<and>
              (map_of (args_config args) (fst e) = None \<longrightarrow>
                 heap r' ! snd e = deactivated now (heap r ! snd e))) \<and>
           (distinct (map fst (args_config args)) \<longrightarrow>
              (\<forall>e \<in> set (args_config args). \<exists>a. map_of (children r') (fst e) = Some a \<and>
                 (\<forall>a0. map_of (children r) (fst e) = Some a0 \<longrightarrow> a = a0) \<and>
                 heap r' ! a =
                   updated_child (snd e) (args_addresses args) (args_args args) (reps (fst e))
                     (case map_of (children r) (fst e) of
                        None \<Rightarrow> ClusterChild_new (fst e)
                      | Some a0 \<Rightarrow> heap r ! a0)))"
proof -
  let ?cfg = "args_config args"
  let ?r1 = "r\<lparr>update_in_progress := True, config := Some ?cfg\<rparr>"
  from inv have wf: "wf r" and pubs: "\<forall>pub \<in> set (channel_control_helper r). publication_ok pub"
    by (simp_all add: invariant_def)
  from wf have d: "distinct (map snd (children r))" and df: "distinct (map fst (children r))"
    and lt: "\<forall>e \<in> set (children r). snd e < length (heap r)"
    by (auto simp: wf_def children_ok_def child_ok_def)
  have wf1: "wf ?r1"
    using wf by (simp add: wf_def children_ok_def orphans_ok_def callbacks_ok_def)
  have d1: "distinct (map snd (children ?r1))" "\<forall>e \<in> set (children ?r1). snd e < length (heap ?r1)"
    using d lt by simp_all
  from deactivate_absent_eq [OF d1, of now ?cfg] obtain h' where h':
    "deactivate_absent now ?cfg (children ?r1) ?r1 = Inr (?r1\<lparr>heap := h'\<rparr>)"
    "length h' = length (heap r)"
    "\<forall>b < length h'. h' ! b =
       (if b \<in> snd ` {e \<in> set (children r). map_of ?cfg (fst e) = None}
        then deactivated now (heap r ! b) else heap r ! b)"
    by auto
  let ?r2 = "?r1\<lparr>heap := h'\<rparr>"
  have wf2: "wf ?r2"
  proof (rule wf_heap [OF wf1])
    show "length h' = length (heap ?r1)" using h'(2) by simp
    show "\<forall>b < length h'. child_kept (heap ?r1 ! b) (h' ! b)"
      using h'(3) by (simp add: deactivated_kept child_kept_refl)
  qed
  have f2: "update_in_progress ?r2" "\<not> shutting_down ?r2" "config ?r2 \<noteq> None"
    using nsd by simp_all
  from update_children_loop [OF wf2 f2 reps, of args] obtain r3 where r3:
    "update_children args reps ?cfg ?r2 = Inr r3" "wf r3" "\<not> shutting_down r3"
    "config r3 = config ?r2" "channel_control_helper r3 = channel_control_helper ?r2"
    "\<forall>e \<in> set (children ?r2). e \<in> set (children r3) \<and>
       (fst e \<notin> fst ` set ?cfg \<longrightarrow> heap r3 ! snd e = heap ?r2 ! snd e)"
    "\<forall>n \<in> fst ` set ?cfg. map_of (children r3) n \<noteq> None"
    "distinct (map fst ?cfg) \<longrightarrow>
       (\<forall>e \<in> set ?cfg. \<exists>a. map_of (children r3) (fst e) = Some a \<and>
          (\<forall>a0. map_of (children ?r2) (fst e) = Some a0 \<longrightarrow> a = a0) \<and>
          heap r3 ! a =
            updated_child (snd e) (args_addresses args) (args_args args) (reps (fst e))
              (case map_of (children ?r2) (fst e) of
                 None \<Rightarrow> ClusterChild_new (fst e)
               | Some a0 \<Rightarrow> heap ?r2 ! a0))"
    by (elim exE conjE)
  let ?r4 = "r3\<lparr>update_in_progress := False\<rparr>"
  have wf4: "wf ?r4" using r3(2) by (simp add: wf_fields [of ?r4 r3])
  have f4: "\<not> update_in_progress ?r4" "config ?r4 = Some ?cfg"
    using r3(4) by simp_all
  have cp4: "configured_present ?cfg ?r4"
    using r3(7) by (simp add: configured_present_def)
  from UpdateStateLocked_wf [OF wf4 f4 cp4] obtain cm where cm:
    "UpdateStateLocked ?r4 =
       Inr (publish (aggregate_of ?cfg (heap ?r4) (children ?r4),
                     aggregated_status (aggregate_of ?cfg (heap ?r4) (children ?r4)), cm) ?r4)"
    "fst ` set cm = fst ` set ?cfg"
    "\<forall>n \<in> fst ` set ?cfg. map_of cm n = Some (wrapper_for (children ?r4) (heap ?r4) n)"
    by blast
  let ?r' = "publish (aggregate_of ?cfg (heap ?r4) (children ?r4),
                      aggregated_status (aggregate_of ?cfg (heap ?r4) (children ?r4)), cm) ?r4"
  have hp: "heap ?r' = heap r3" and ch: "children ?r' = children r3"
    by (simp_all add: publish_def)
  have 1: "UpdateLocked args now reps r = Inr ?r'"
    using nsd h'(1) r3(1) cm(1) by (simp add: UpdateLocked_def Let_def)
  have p4: "\<forall>pub \<in> set (channel_control_helper ?r4). publication_ok pub"
    using pubs r3(5) by simp
  have 2: "invariant ?r'" by (rule invariant_publish [OF wf4 f4(1) p4])
  have 3: "config ?r' = Some ?cfg" "\<not> shutting_down ?r'"
    using r3(3,4) by (simp_all add: publish_def)
  have 4: "channel_control_helper ?r' = channel_control_helper r @
             [(aggregate_of ?cfg (heap ?r') (children ?r'),
               aggregated_status (aggregate_of ?cfg (heap ?r') (children ?r')), cm)]"
    using r3(5) by (simp add: publish_def)
  have 5: "\<forall>n \<in> fst ` set ?cfg. map_of cm n = Some (wrapper_for (children ?r') (heap ?r') n)"
    using cm(3) by (simp add: publish_def)
  have 6: "configured_present ?cfg ?r'"
    using cp4 by (simp add: configured_present_def publish_def)
  have 7: "\<forall>e \<in> set (children r). e \<in> set (children ?r') \<and>
              (map_of ?cfg (fst e) = None \<longrightarrow> heap ?r' ! snd e = deactivated now (heap r ! snd e))"
  proof
    fix e assume e: "e \<in> set (children r)"
    with r3(6) have e3: "e \<in> set (children r3)" by simp
    have "heap r3 ! snd e = deactivated now (heap r ! snd e)" if n: "map_of ?cfg (fst e) = None"
    proof -
      from n have "fst e \<notin> fst ` set ?cfg" by (simp add: map_of_eq_None_iff)
      with r3(6) e have "heap r3 ! snd e = h' ! snd e" by simp
      moreover from e n have "snd e \<in> snd ` {e \<in> set (children r). map_of ?cfg (fst e) = None}"
        by blast
      moreover from lt e have "snd e < length h'" by (simp add: h'(2))
      ultimately show ?thesis using h'(3) by simp
    qed
    with e3 show "e \<in> set (children ?r') \<and>
              (map_of ?cfg (fst e) = None \<longrightarrow> heap ?r' ! snd e = deactivated now (heap r ! snd e))"
      unfolding hp ch by blast
  qed
  have 8: "\<forall>e \<in> set ?cfg. \<exists>a. map_of (children ?r') (fst e) = Some a \<and>
                 (\<forall>a0. map_of (children r) (fst e) = Some a0 \<longrightarrow> a = a0) \<and>
                 heap ?r' ! a =
                   updated_child (snd e) (args_addresses args) (args_args args) (reps (fst e))
                     (case map_of (children r) (fst e) of
                        None \<Rightarrow> ClusterChild_new (fst e)
                      | Some a0 \<Rightarrow> heap r ! a0)"
    if dist: "distinct (map fst ?cfg)"
  proof
    fix e assume e: "e \<in> set ?cfg"
    from r3(8) dist e obtain a where a: "map_of (children r3) (fst e) = Some a"
      "\<forall>a0. map_of (children ?r2) (fst e) = Some a0 \<longrightarrow> a = a0"
      "heap r3 ! a =
         updated_child (snd e) (args_addresses args) (args_args args) (reps (fst e))
           (case map_of (children ?r2) (fst e) of
              None \<Rightarrow> ClusterChild_new (fst e)
            | Some a0 \<Rightarrow> heap ?r2 ! a0)"
      by blast
    have "(case map_of (children ?r2) (fst e) of
              None \<Rightarrow> ClusterChild_new (fst e) | Some a0 \<Rightarrow> heap ?r2 ! a0) =
          (case map_of (children r) (fst e) of
              None \<Rightarrow> ClusterChild_new (fst e) | Some a0 \<Rightarrow> heap r ! a0)"
    proof (cases "map_of (children r) (fst e)")
      case None
      then show ?thesis by simp
    next
      case (Some a0)
      then have m: "(fst e, a0) \<in> set (children r)" by (rule map_of_SomeD)
      from e have inc: "map_of ?cfg (fst e) \<noteq> None"
        by (simp add: map_of_eq_None_iff)
      have "a0 \<notin> snd ` {e \<in> set (children r). map_of ?cfg (fst e) = None}"
      proof
        assume "a0 \<in> snd ` {e \<in> set (children r). map_of ?cfg (fst e) = None}"
        then obtain e' where e': "e' \<in> set (children r)" "map_of ?cfg (fst e') = None" "snd e' = a0"
          by auto
        from snd_inj_entry [OF d e'(1) m] e'(3) have "e' = (fst e, a0)" by simp
        with e'(2) inc show False by simp
      qed
      moreover from lt m have "a0 < length h'" by (auto simp: h'(2))
      ultimately have "h' ! a0 = heap r ! a0" using h'(3) by simp
      with Some show ?thesis by simp
    qed
    with a(3) have "heap r3 ! a =
         updated_child (snd e) (args_addresses args) (args_args args) (reps (fst e))
           (case map_of (children r) (fst e) of
              None \<Rightarrow> ClusterChild_new (fst e)
            | Some a0 \<Rightarrow> heap r ! a0)"
      by (simp only:)
    with a(1,2) show "\<exists>a. map_of (children ?r') (fst e) = Some a \<and>
                 (\<forall>a0. map_of (children r) (fst e) = Some a0 \<longrightarrow> a = a0) \<and>
                 heap ?r' ! a =
                   updated_child (snd e) (args_addresses args) (args_args args) (reps (fst e))
                     (case map_of (children r) (fst e) of
                        None \<Rightarrow> ClusterChild_new (fst e)
                      | Some a0 \<Rightarrow> heap r ! a0)"
      unfolding hp ch by simp
  qed
  show ?thesis
  proof (intro exI [of _ ?r'] exI [of _ cm] conjI)
    show "UpdateLocked args now reps r = Inr ?r'" by (rule 1)
    show "invariant ?r'" by (rule 2)
    show "config ?r' = Some ?cfg" "\<not> shutting_down ?r'" by (rule 3)+
    show "channel_control_helper ?r' = channel_control_helper r @
             [(aggregate_of ?cfg (heap ?r') (children ?r'),
               aggregated_status (aggregate_of ?cfg (heap ?r') (children ?r')), cm)]" by (rule 4)
    show "fst ` set cm = fst ` set ?cfg" by (rule cm(2))
    show "\<forall>n \<in> fst ` set ?cfg. map_of cm n = Some (wrapper_for (children ?r') (heap ?r') n)"
      by (rule 5)
    show "configured_present ?cfg ?r'" by (rule 6)
    show "\<forall>e \<in> set (children r). e \<in> set (children ?r') \<and>
              (map_of ?cfg (fst e) = None \<longrightarrow> heap ?r' ! snd e = deactivated now (heap r ! snd e))"
      by (rule 7)
    show "distinct (map fst ?cfg) \<longrightarrow>
            (\<forall>e \<in> set ?cfg. \<exists>a. map_of (children ?r') (fst e) = Some a \<and>
                 (\<forall>a0. map_of (children r) (fst e) = Some a0 \<longrightarrow> a = a0) \<and>
                 heap ?r' ! a =
                   updated_child (snd e) (args_addresses args) (args_args args) (reps (fst e))
                     (case map_of (children r) (fst e) of
                        None \<Rightarrow> ClusterChild_new (fst e)
                      | Some a0 \<Rightarrow> heap r ! a0))"
      using 8 by blast
  qed
qed

lemma step_invariant:
  assumes inv: "invariant r" and en: "enabled ev r" and res: "step ev r = Inr r'"
  shows "invariant r'"
proof (cases ev)
  case (EvUpdate args now reps)
  show ?thesis
  proof (cases "shutting_down r")
    case True
    with inv EvUpdate res show ?thesis by (simp add: UpdateLocked_shut_down)
  next
    case False
    from en EvUpdate have "\<forall>e \<in> set (args_config args). reports_ok (reps (fst e))" by simp
    from UpdateLocked_result [OF inv False this, of now]
    obtain r'' where "UpdateLocked args now reps r = Inr r''" "invariant r''"
      by (elim exE conjE)
    with EvUpdate res show ?thesis by simp
  qed
next
  case EvExitIdle
  with ExitIdleLocked_invariant [OF inv] res show ?thesis by auto
next
  case EvResetBackoff
  with ResetBackoffLocked_invariant [OF inv] res show ?thesis by auto
next
  case EvShutdown
  with ShutdownLocked_invariant [OF inv] res show ?thesis by auto
next
  case (EvChildState self st status p)
  with en res Helper_UpdateState_invariant [OF inv, of self st status p r'] show ?thesis by simp
next
  case (EvTimerExpires self now)
  with en res timer_expires_invariant [OF inv, of self] show ?thesis by auto
next
  case (EvRunCallback i)
  with en res run_callback_invariant [OF inv, of i] show ?thesis by auto
qed

lemma reachable_invariant: "reachable r \<Longrightarrow> invariant r"
proof (induction rule: reachable.induct)
  case reachable_new
  show ?case by (rule invariant_new)
next
  case (reachable_step r ev r')
  from step_invariant [OF reachable_step.IH reachable_step.hyps(2,3)]
  show ?case .
qed

subsection \<open>The example runs are runs\<close>

lemmas example_defs =
  update_args_def cfg_AB_def cfg_B_def no_reports_def live_child_def dead_child_def
  queue_entry_def publication_AB_def publication_B_def
  publications_1_def publications_2_def publications_3_def publications_4_def
  publications_7_def publications_10_def publications_12_def
  router_1_def router_2_def router_3_def router_4_def router_5_def router_6_def router_7_def
  router_8_def router_9_def router_10_def router_11_def router_12_def router_13_def
  router_14_def router_15_def

lemmas operation_defs =
  UpdateLocked_def ClusterChild_UpdateLocked_def ClusterChild_DeactivateLocked_def
  ClusterChild_new_def CreateChildPolicyLocked_def LoadBalancingPolicy_call_def set_child_def
  UpdateStateLocked_def aggregated_status_def OkStatus_def Helper_UpdateState_def
  ShutdownLocked_def ClusterChild_Orphan_def grpc_timer_init_def grpc_timer_cancel_def
  OnDelayedRemovalTimer_def OnDelayedRemovalTimerLocked_def children_erase_def
  timer_expires_def run_callback_def GRPC_ERROR_IS_NONE_def GRPC_ERROR_CANCELLED_def
  GRPC_XDS_CLUSTER_MANAGER_CHILD_RETENTION_INTERVAL_MS_def XdsClusterManagerLb_new_def Let_def

lemma step_1:
  "step (EvUpdate (update_args cfg_AB) 0 no_reports) XdsClusterManagerLb_new = Inr router_1"
  by (simp add: operation_defs example_defs)

lemma reachable_1: "reachable router_1"
  by (rule reachable_step [OF reachable_new _ step_1]) (simp add: example_defs reports_ok_def)

lemma step_2:
  "step (EvChildState 0 GRPC_CHANNEL_READY OkStatus picker_A) router_1 = Inr router_2"
  by (simp add: operation_defs example_defs)

lemma reachable_2: "reachable router_2"
  by (rule reachable_step [OF reachable_1 _ step_2]) (simp add: example_defs)

lemma step_3:
  "step (EvChildState 1 GRPC_CHANNEL_TRANSIENT_FAILURE (kUnavailable, ''down'') QueuePicker) router_2 =
     Inr router_3"
  by (simp add: operation_defs example_defs)

lemma reachable_3: "reachable router_3"
  by (rule reachable_step [OF reachable_2 _ step_3]) (simp add: example_defs)

lemma step_4: "step (EvUpdate (update_args cfg_B) 1000 no_reports) router_3 = Inr router_4"
  by (simp add: operation_defs example_defs)

lemma reachable_4: "reachable router_4"
  by (rule reachable_step [OF reachable_3 _ step_4]) (simp add: example_defs reports_ok_def)

lemma step_5: "step EvShutdown router_4 = Inr router_5"
  by (simp add: operation_defs example_defs)

lemma reachable_5: "reachable router_5"
  by (rule reachable_step [OF reachable_4 _ step_5]) simp

lemma step_6: "step (EvTimerExpires 0 901000) router_4 = Inr router_6"
  by (simp add: operation_defs example_defs)

lemma enabled_6: "enabled (EvTimerExpires 0 901000) router_4"
  by (simp add: example_defs)

lemma reachable_6: "reachable router_6"
  by (rule reachable_step [OF reachable_4 enabled_6 step_6])

lemma step_7: "step (EvUpdate (update_args cfg_AB) 901000 no_reports) router_6 = Inr router_7"
  by (simp add: operation_defs example_defs)

lemma enabled_7: "enabled (EvUpdate (update_args cfg_AB) 901000 no_reports) router_6"
  by (simp add: example_defs reports_ok_def)

lemma reachable_7: "reachable router_7"
  by (rule reachable_step [OF reachable_6 enabled_7 step_7])

lemma step_8: "step (EvRunCallback 0) router_7 = Inr router_8"
  by (simp add: operation_defs example_defs)

lemma enabled_8: "enabled (EvRunCallback 0) router_7"
  by (simp add: example_defs)

lemma reachable_8: "reachable router_8"
  by (rule reachable_step [OF reachable_7 enabled_8 step_8])

lemma step_9: "step (EvUpdate (update_args cfg_AB) 2000 no_reports) router_4 = Inr router_9"
  by (simp add: operation_defs example_defs)

lemma enabled_9: "enabled (EvUpdate (update_args cfg_AB) 2000 no_reports) router_4"
  by (simp add: example_defs reports_ok_def)

lemma reachable_9: "reachable router_9"
  by (rule reachable_step [OF reachable_4 enabled_9 step_9])

lemma step_10: "step (EvUpdate (update_args cfg_B) 3000 no_reports) router_9 = Inr router_10"
  by (simp add: operation_defs example_defs)

lemma enabled_10: "enabled (EvUpdate (update_args cfg_B) 3000 no_reports) router_9"
  by (simp add: example_defs reports_ok_def)

lemma reachable_10: "reachable router_10"
  by (rule reachable_step [OF reachable_9 enabled_10 step_10])

lemma step_11: "step (EvRunCallback 0) router_10 = Inr router_11"
  by (simp add: operation_defs example_defs)

lemma enabled_11: "enabled (EvRunCallback 0) router_10"
  by (simp add: example_defs)

lemma reachable_11: "reachable router_11"
  by (rule reachable_step [OF reachable_10 enabled_11 step_11])

lemma step_12: "step (EvUpdate (update_args cfg_AB) 4000 no_reports) router_11 = Inr router_12"
  by (simp add: operation_defs example_defs)

lemma enabled_12: "enabled (EvUpdate (update_args cfg_AB) 4000 no_reports) router_11"
  by (simp add: example_defs reports_ok_def)

lemma reachable_12: "reachable router_12"
  by (rule reachable_step [OF reachable_11 enabled_12 step_12])

lemma step_13: "step (EvTimerExpires 0 903000) router_12 = Inr router_13"
  by (simp add: operation_defs example_defs)

lemma enabled_13: "enabled (EvTimerExpires 0 903000) router_12"
  by (simp add: example_defs)

lemma reachable_13: "reachable router_13"
  by (rule reachable_step [OF reachable_12 enabled_13 step_13])

lemma step_14: "step (EvRunCallback 0) router_13 = Inr router_14"
  by (simp add: operation_defs example_defs)

lemma enabled_14: "enabled (EvRunCallback 0) router_13"
  by (simp add: example_defs)

lemma reachable_14: "reachable router_14"
  by (rule reachable_step [OF reachable_13 enabled_14 step_14])

lemma step_15: "step (EvUpdate (update_args cfg_AB) 904000 no_reports) router_14 = Inr router_15"
  by (simp add: operation_defs example_defs)

lemma enabled_15: "enabled (EvUpdate (update_args cfg_AB) 904000 no_reports) router_14"
  by (simp add: example_defs reports_ok_def)

lemma reachable_15: "reachable router_15"
  by (rule reachable_step [OF reachable_14 enabled_15 step_15])

subsection \<open>Facts about the example states\<close>

lemma router_1_facts:
  "\<not> shutting_down router_1" "channel_control_helper router_1 = publications_1"
  "config router_1 = Some cfg_AB" "configured_present cfg_AB router_1"
  "0 < length (heap router_1)" "children router_1 = [(''A'', 0), (''B'', 1)]"
  by (simp_all add: router_1_def configured_present_def cfg_AB_def)

lemma router_3_facts:
  "config router_3 = Some cfg_AB" "configured_present cfg_AB router_3"
  by (simp_all add: router_3_def configured_present_def cfg_AB_def)

lemma router_4_facts:
  "\<not> shutting_down router_4" "config router_4 = Some cfg_B"
  "configured_present cfg_B router_4" "children router_4 = [(''A'', 0), (''B'', 1)]"
  "Suc 0 < length (heap router_4)" "\<not> update_in_progress router_4"
  "channel_control_helper router_4 = publications_4"
  by (simp_all add: router_4_def configured_present_def cfg_B_def)

lemma router_4_aggregate:
  "aggregate_of cfg_B (heap router_4) (children router_4) = GRPC_CHANNEL_TRANSIENT_FAILURE"
  by (simp add: example_defs aggregate_of_def in_state_def)

lemma router_3_aggregate:
  "aggregate_of cfg_AB (heap router_3) (children router_3) = GRPC_CHANNEL_READY"
  by (simp add: example_defs aggregate_of_def in_state_def)

lemma router_5_facts:
  "0 < length (heap router_5)" "shutdown (heap router_5 ! 0)" "children router_5 = []"
  "shutting_down router_5" "config router_5 = Some cfg_B"
  by (simp_all add: router_5_def dead_child_def)

lemma reports_A_ok: "\<forall>e \<in> set (args_config (update_args cfg_AB)). reports_ok (reports_A (fst e))"
  by (simp add: update_args_def cfg_AB_def reports_A_def reports_ok_def)

lemma shut_down_noop:
  assumes "shutting_down r'" and "children r' = []"
  shows "ShutdownLocked r' = Inr r'" "UpdateLocked args now reps r' = Inr r'"
    "ExitIdleLocked r' = Inr r'" "ResetBackoffLocked r' = Inr r'"
    "self < length (heap r') \<Longrightarrow> Helper_UpdateState st status p self r' = Inr r'"
  using assms
  by (simp_all add: ShutdownLocked_def UpdateLocked_def ExitIdleLocked_def ResetBackoffLocked_def
      Helper_UpdateState_def)

lemma UpdateStateLocked_returns:
  assumes "reachable r" "config r = Some cfg" "UpdateStateLocked r = Inr r'"
  shows "configured_present cfg r"
proof (rule ccontr)
  assume n: "\<not> configured_present cfg r"
  from assms(1) have "invariant r" by (rule reachable_invariant)
  then have "wf r" "\<not> update_in_progress r" by (simp_all add: invariant_def)
  from UpdateStateLocked_wf_missing [OF this assms(2) n] assms(3) show False by simp
qed

lemma aggregate_transient_failure:
  assumes "wf r"
  shows "(aggregate_of cfg (heap r) (children r) = GRPC_CHANNEL_TRANSIENT_FAILURE) =
           (\<forall>e \<in> set (children r). map_of cfg (fst e) \<noteq> None \<longrightarrow>
              connectivity_state (heap r ! snd e) = GRPC_CHANNEL_TRANSIENT_FAILURE)"
proof
  let ?st = "aggregate_of cfg (heap r) (children r)"
  have ns: "connectivity_state (heap r ! snd e) \<noteq> GRPC_CHANNEL_SHUTDOWN"
    if "e \<in> set (children r)" for e
    using assms that by (simp add: wf_def children_ok_def child_ok_def)
  assume tf: "?st = GRPC_CHANNEL_TRANSIENT_FAILURE"
  show "\<forall>e \<in> set (children r). map_of cfg (fst e) \<noteq> None \<longrightarrow>
              connectivity_state (heap r ! snd e) = GRPC_CHANNEL_TRANSIENT_FAILURE"
  proof (intro ballI impI)
    fix e assume e: "e \<in> set (children r)" and c: "map_of cfg (fst e) \<noteq> None"
    from tf have "\<not> in_state cfg (heap r) GRPC_CHANNEL_READY e"
      "\<not> in_state cfg (heap r) GRPC_CHANNEL_CONNECTING e"
      "\<not> in_state cfg (heap r) GRPC_CHANNEL_IDLE e"
      using e by (auto simp: aggregate_of_def split: if_splits)
    with c ns [OF e] show "connectivity_state (heap r ! snd e) = GRPC_CHANNEL_TRANSIENT_FAILURE"
      by (cases "connectivity_state (heap r ! snd e)") (simp_all add: in_state_def)
  qed
next
  assume "\<forall>e \<in> set (children r). map_of cfg (fst e) \<noteq> None \<longrightarrow>
              connectivity_state (heap r ! snd e) = GRPC_CHANNEL_TRANSIENT_FAILURE"
  then show "aggregate_of cfg (heap r) (children r) = GRPC_CHANNEL_TRANSIENT_FAILURE"
    by (auto simp: aggregate_of_def in_state_def)
qed

section \<open>The claims\<close>

text \<open>
  Claim C1. In every reachable state of a policy that has a configuration, the counting loop
  of \<^verbatim>\<open>UpdateStateLocked\<close> ends, and the state chosen from its counters is
  \<open>aggregate_of\<close>: READY if a child whose name is in the configuration is READY, else
  CONNECTING if one is CONNECTING, else IDLE if one is IDLE, else TRANSIENT_FAILURE; children
  whose name is not in the configuration (pending removal) do not count. When every name of
  the configuration has a child, \<^verbatim>\<open>UpdateStateLocked\<close> publishes that state, and
  whenever it returns it has published that state.
\<close>

theorem UpdateStateLocked_aggregate_priority:
  assumes "reachable r" and "config r = Some cfg"
  shows "(\<exists>counts. count_states cfg (heap r) (children r) (0, 0, 0, 0) = Inr counts \<and>
            aggregated_state counts = aggregate_of cfg (heap r) (children r)) \<and>
         (configured_present cfg r \<longrightarrow>
            (\<exists>cm. UpdateStateLocked r =
               Inr (publish (aggregate_of cfg (heap r) (children r),
                             aggregated_status (aggregate_of cfg (heap r) (children r)), cm) r))) \<and>
         (\<forall>r'. UpdateStateLocked r = Inr r' \<longrightarrow>
            (\<exists>cm. r' = publish (aggregate_of cfg (heap r) (children r),
                                aggregated_status (aggregate_of cfg (heap r) (children r)), cm) r))"
proof -
  from assms(1) have "invariant r" by (rule reachable_invariant)
  then have wf: "wf r" and uip: "\<not> update_in_progress r" by (simp_all add: invariant_def)
  have "\<forall>e \<in> set (children r). map_of cfg (fst e) \<noteq> None \<longrightarrow>
          snd e < length (heap r) \<and> connectivity_state (heap r ! snd e) \<noteq> GRPC_CHANNEL_SHUTDOWN"
    using wf_states [OF wf] by simp
  from count_states_ok [OF this, of 0 0 0 0]
  have "\<exists>counts. count_states cfg (heap r) (children r) (0, 0, 0, 0) = Inr counts \<and>
            aggregated_state counts = aggregate_of cfg (heap r) (children r)"
    by (simp add: aggregated_state_counts del: aggregated_state.simps)
  moreover have "\<exists>cm. UpdateStateLocked r =
               Inr (publish (aggregate_of cfg (heap r) (children r),
                             aggregated_status (aggregate_of cfg (heap r) (children r)), cm) r)"
    if "configured_present cfg r"
    using UpdateStateLocked_wf [OF wf uip assms(2) that] by blast
  moreover have "\<exists>cm. r' = publish (aggregate_of cfg (heap r) (children r),
                                aggregated_status (aggregate_of cfg (heap r) (children r)), cm) r"
    if "UpdateStateLocked r = Inr r'" for r'
  proof -
    from UpdateStateLocked_returns [OF assms that] have "configured_present cfg r" .
    from UpdateStateLocked_wf [OF wf uip assms(2) this] that show ?thesis by auto
  qed
  ultimately show ?thesis by blast
qed

text \<open>
  The statement at a state of the example run: B alone is configured and is in
  TRANSIENT_FAILURE, while A, which waits for its removal, is READY.
\<close>

theorem UpdateStateLocked_aggregate_priority_witness:
  "(\<exists>counts. count_states cfg_B (heap router_4) (children router_4) (0, 0, 0, 0) = Inr counts \<and>
      aggregated_state counts = GRPC_CHANNEL_TRANSIENT_FAILURE) \<and>
   (\<exists>cm. UpdateStateLocked router_4 =
      Inr (publish (GRPC_CHANNEL_TRANSIENT_FAILURE,
                    (kUnavailable, ''TRANSIENT_FAILURE from XdsClusterManagerLb''), cm) router_4))"
  using UpdateStateLocked_aggregate_priority [OF reachable_4 router_4_facts(2), THEN conjunct1]
    UpdateStateLocked_aggregate_priority [OF reachable_4 router_4_facts(2), THEN conjunct2,
      THEN conjunct1]
  by (simp add: router_4_aggregate router_4_facts(3) aggregated_status_def)

text \<open>
  Claim C2, amended. \<^verbatim>\<open>Helper::UpdateState\<close>, called for a child that exists: on a
  policy that is shut down it returns at once and records neither picker nor state. On a
  policy that is not shut down it records the new picker in the child, and sets the child's
  state to the new state unless the state was TRANSIENT_FAILURE and the new one is not READY,
  in which case it stays TRANSIENT_FAILURE; then it recomputes the aggregate, and that is all
  it does. This holds in every state of the policy, also while an update is in progress,
  where the recomputation publishes nothing. In a reachable state in which every configured
  name has a child, and for every state that a child policy reports (any but SHUTDOWN), the
  callback returns, and has written the child and published once.
\<close>

theorem Helper_UpdateState_latches:
  assumes "self < length (heap r)"
  shows "(shutting_down r \<longrightarrow> Helper_UpdateState state status p self r = Inr r) \<and>
         (\<not> shutting_down r \<longrightarrow>
            Helper_UpdateState state status p self r =
              UpdateStateLocked
                (r\<lparr>heap := (heap r)[self := (heap r ! self)
                     \<lparr>picker_wrapper := Some \<lparr>wrapper_name = name (heap r ! self), picker = p\<rparr>,
                      connectivity_state :=
                        (if connectivity_state (heap r ! self) = GRPC_CHANNEL_TRANSIENT_FAILURE \<and>
                            state \<noteq> GRPC_CHANNEL_READY
                         then GRPC_CHANNEL_TRANSIENT_FAILURE else state)\<rparr>]\<rparr>)) \<and>
         (\<not> shutting_down r \<and> update_in_progress r \<longrightarrow>
            Helper_UpdateState state status p self r =
              Inr (r\<lparr>heap := (heap r)[self := (heap r ! self)
                     \<lparr>picker_wrapper := Some \<lparr>wrapper_name = name (heap r ! self), picker = p\<rparr>,
                      connectivity_state :=
                        (if connectivity_state (heap r ! self) = GRPC_CHANNEL_TRANSIENT_FAILURE \<and>
                            state \<noteq> GRPC_CHANNEL_READY
                         then GRPC_CHANNEL_TRANSIENT_FAILURE else state)\<rparr>]\<rparr>)) \<and>
         (\<not> shutting_down r \<and> reachable r \<and> state \<noteq> GRPC_CHANNEL_SHUTDOWN \<and>
          configured_present (the (config r)) r \<longrightarrow>
            (\<exists>pub. Helper_UpdateState state status p self r =
               Inr (r\<lparr>heap := (heap r)[self := (heap r ! self)
                     \<lparr>picker_wrapper := Some \<lparr>wrapper_name = name (heap r ! self), picker = p\<rparr>,
                      connectivity_state :=
                        (if connectivity_state (heap r ! self) = GRPC_CHANNEL_TRANSIENT_FAILURE \<and>
                            state \<noteq> GRPC_CHANNEL_READY
                         then GRPC_CHANNEL_TRANSIENT_FAILURE else state)\<rparr>],
                  channel_control_helper := channel_control_helper r @ [pub]\<rparr>)))"
proof -
  let ?c' = "(heap r ! self)
               \<lparr>picker_wrapper := Some \<lparr>wrapper_name = name (heap r ! self), picker = p\<rparr>,
                connectivity_state :=
                  (if connectivity_state (heap r ! self) = GRPC_CHANNEL_TRANSIENT_FAILURE \<and>
                      state \<noteq> GRPC_CHANNEL_READY
                   then GRPC_CHANNEL_TRANSIENT_FAILURE else state)\<rparr>"
  let ?r1 = "r\<lparr>heap := (heap r)[self := ?c']\<rparr>"
  have r1: "set_child self (latch (state, status, p) (heap r ! self)) r = ?r1"
    by (simp add: set_child_def latch_eq)
  have 1: "Helper_UpdateState state status p self r = Inr r" if "shutting_down r"
    using assms that by (rule Helper_UpdateState_shut_down)
  have 2: "Helper_UpdateState state status p self r = UpdateStateLocked ?r1"
    if "\<not> shutting_down r"
    using Helper_UpdateState_eq [OF assms that, of state status p] by (simp only: r1)
  have 3: "Helper_UpdateState state status p self r = Inr ?r1"
    if "\<not> shutting_down r" "update_in_progress r"
    using Helper_UpdateState_in_progress [OF that(2) that(1) assms, of state status p]
    by (simp only: r1)
  have 4: "\<exists>pub. Helper_UpdateState state status p self r =
                   Inr (r\<lparr>heap := (heap r)[self := ?c'],
                          channel_control_helper := channel_control_helper r @ [pub]\<rparr>)"
    if nsd: "\<not> shutting_down r" and re: "reachable r" and st: "state \<noteq> GRPC_CHANNEL_SHUTDOWN"
      and cp: "configured_present (the (config r)) r"
  proof -
    from re have inv: "invariant r" by (rule reachable_invariant)
    then have wf: "wf r" by (simp add: invariant_def)
    from assms have "heap r \<noteq> []" by auto
    from wf_config [OF wf this] obtain cfg where cfg: "config r = Some cfg" by blast
    with cp have cp': "configured_present cfg r" by simp
    from Helper_UpdateState_returns [OF inv assms st nsd cfg, of status p] cp'
    have "\<exists>pub. Helper_UpdateState state status p self r =
        Inr (publish pub (set_child self (latch (state, status, p) (heap r ! self)) r))"
      by (simp del: split_paired_Ex) blast
    then obtain pub where "Helper_UpdateState state status p self r =
        Inr (publish pub (set_child self (latch (state, status, p) (heap r ! self)) r))"
      by (elim exE)
    then have "Helper_UpdateState state status p self r =
                 Inr (r\<lparr>heap := (heap r)[self := ?c'],
                        channel_control_helper := channel_control_helper r @ [pub]\<rparr>)"
      by (simp only: r1) (simp add: publish_def)
    then show ?thesis by blast
  qed
  from 1 2 3 4 show ?thesis by blast
qed

text \<open>
  In the example, B is in TRANSIENT_FAILURE and reports CONNECTING with a new picker: the
  picker is recorded and the state stays TRANSIENT_FAILURE. A reports READY while an update
  is in progress: picker and state are recorded and nothing is published. After the shutdown
  a report changes nothing.
\<close>

theorem Helper_UpdateState_latches_witness:
  "(\<exists>pub. Helper_UpdateState GRPC_CHANNEL_CONNECTING OkStatus picker_A 1 router_4 =
      Inr (router_4\<lparr>heap := (heap router_4)
             [1 := live_child ''B'' [''polY'', ''polY''] (Some picker_A)
                     GRPC_CHANNEL_TRANSIENT_FAILURE TimerNotArmed False],
           channel_control_helper := publications_4 @ [pub]\<rparr>)) \<and>
   Helper_UpdateState GRPC_CHANNEL_READY OkStatus picker_A 0
       (router_1\<lparr>update_in_progress := True\<rparr>) =
     Inr (router_1\<lparr>update_in_progress := True,
            heap := (heap router_1)
              [0 := live_child ''A'' [''polX''] (Some picker_A) GRPC_CHANNEL_READY
                      TimerNotArmed False]\<rparr>) \<and>
   Helper_UpdateState GRPC_CHANNEL_READY OkStatus picker_A 0 router_5 = Inr router_5"
proof -
  have l4: "1 < length (heap router_4)" by (simp add: router_4_def)
  have l1: "0 < length (heap (router_1\<lparr>update_in_progress := True\<rparr>))"
    by (simp add: router_1_def)
  have c4: "configured_present (the (config router_4)) router_4"
    by (simp add: router_4_facts)
  have b: "(heap router_4 ! Suc 0)
             \<lparr>picker_wrapper := Some \<lparr>wrapper_name = name (heap router_4 ! Suc 0), picker = picker_A\<rparr>,
              connectivity_state := GRPC_CHANNEL_TRANSIENT_FAILURE\<rparr> =
           live_child ''B'' [''polY'', ''polY''] (Some picker_A)
             GRPC_CHANNEL_TRANSIENT_FAILURE TimerNotArmed False"
    "connectivity_state (heap router_4 ! Suc 0) = GRPC_CHANNEL_TRANSIENT_FAILURE"
    by (simp_all add: router_4_def live_child_def)
  have a: "(heap router_1 ! 0)
             \<lparr>picker_wrapper := Some \<lparr>wrapper_name = name (heap router_1 ! 0), picker = picker_A\<rparr>,
              connectivity_state := GRPC_CHANNEL_READY\<rparr> =
           live_child ''A'' [''polX''] (Some picker_A) GRPC_CHANNEL_READY TimerNotArmed False"
    by (simp add: router_1_def live_child_def)
  note t4 = Helper_UpdateState_latches [OF l4, of GRPC_CHANNEL_CONNECTING OkStatus picker_A,
      THEN conjunct2, THEN conjunct2, THEN conjunct2]
  have "\<not> shutting_down router_4 \<and> reachable router_4 \<and>
        GRPC_CHANNEL_CONNECTING \<noteq> GRPC_CHANNEL_SHUTDOWN \<and>
        configured_present (the (config router_4)) router_4"
    using reachable_4 c4 router_4_facts(1) by simp
  from mp [OF t4 this]
  have 1: "\<exists>pub. Helper_UpdateState GRPC_CHANNEL_CONNECTING OkStatus picker_A 1 router_4 =
      Inr (router_4\<lparr>heap := (heap router_4)
             [1 := live_child ''B'' [''polY'', ''polY''] (Some picker_A)
                     GRPC_CHANNEL_TRANSIENT_FAILURE TimerNotArmed False],
           channel_control_helper := publications_4 @ [pub]\<rparr>)"
    by (simp add: router_4_facts(7) b)
  note t1 = Helper_UpdateState_latches [OF l1, of GRPC_CHANNEL_READY OkStatus picker_A,
      THEN conjunct2, THEN conjunct2, THEN conjunct1]
  have "\<not> shutting_down (router_1\<lparr>update_in_progress := True\<rparr>) \<and>
        update_in_progress (router_1\<lparr>update_in_progress := True\<rparr>)"
    using router_1_facts(1) by simp
  from mp [OF t1 this]
  have 2: "Helper_UpdateState GRPC_CHANNEL_READY OkStatus picker_A 0
       (router_1\<lparr>update_in_progress := True\<rparr>) =
     Inr (router_1\<lparr>update_in_progress := True,
            heap := (heap router_1)
              [0 := live_child ''A'' [''polX''] (Some picker_A) GRPC_CHANNEL_READY
                      TimerNotArmed False]\<rparr>)"
    by (simp add: a)
  from Helper_UpdateState_latches [OF router_5_facts(1), of GRPC_CHANNEL_READY OkStatus picker_A]
  have 3: "Helper_UpdateState GRPC_CHANNEL_READY OkStatus picker_A 0 router_5 = Inr router_5"
    by (simp add: router_5_facts(4))
  from 1 2 3 show ?thesis by blast
qed

text \<open>
  Claim C2 as stated fails on a policy that is shut down: the callback returns before it
  records the picker.
\<close>

theorem Helper_UpdateState_shut_down_counterexample:
  "Helper_UpdateState GRPC_CHANNEL_READY OkStatus picker_A 0 router_5 = Inr router_5 \<and>
   picker_wrapper (heap router_5 ! 0) = None"
  by (simp add: Helper_UpdateState_def router_5_def dead_child_def)

text \<open>
  Claim C3. In every reachable state of a policy that has a configuration, the picker that
  \<^verbatim>\<open>UpdateStateLocked\<close> publishes has exactly the names of the configuration as its
  keys, and the entry of a name is the picker of its child, or a queuing picker when the child
  has not reported a picker yet. The call publishes when every name of the configuration has
  a child, and only then.
\<close>

theorem UpdateStateLocked_picker_keys:
  assumes "reachable r" and "config r = Some cfg"
  shows "(configured_present cfg r \<longrightarrow>
            (\<exists>st status cm. UpdateStateLocked r = Inr (publish (st, status, cm) r) \<and>
               fst ` set cm = fst ` set cfg \<and>
               (\<forall>n \<in> fst ` set cfg. \<exists>a. map_of (children r) n = Some a \<and>
                  map_of cm n =
                    Some (case picker_wrapper (heap r ! a) of
                            None \<Rightarrow> \<lparr>wrapper_name = n, picker = QueuePicker\<rparr>
                          | Some w \<Rightarrow> w)))) \<and>
         (\<forall>r'. UpdateStateLocked r = Inr r' \<longrightarrow> configured_present cfg r)"
proof -
  from assms(1) have "invariant r" by (rule reachable_invariant)
  then have wf: "wf r" and uip: "\<not> update_in_progress r" by (simp_all add: invariant_def)
  have 1: "\<exists>st status cm. UpdateStateLocked r = Inr (publish (st, status, cm) r) \<and>
               fst ` set cm = fst ` set cfg \<and>
               (\<forall>n \<in> fst ` set cfg. \<exists>a. map_of (children r) n = Some a \<and>
                  map_of cm n =
                    Some (case picker_wrapper (heap r ! a) of
                            None \<Rightarrow> \<lparr>wrapper_name = n, picker = QueuePicker\<rparr>
                          | Some w \<Rightarrow> w))"
    if cp: "configured_present cfg r"
  proof -
    from UpdateStateLocked_wf [OF wf uip assms(2) cp] obtain cm where cm:
      "UpdateStateLocked r =
         Inr (publish (aggregate_of cfg (heap r) (children r),
                       aggregated_status (aggregate_of cfg (heap r) (children r)), cm) r)"
      "fst ` set cm = fst ` set cfg"
      "\<forall>n \<in> fst ` set cfg. map_of cm n = Some (wrapper_for (children r) (heap r) n)"
      by blast
    have "\<forall>n \<in> fst ` set cfg. \<exists>a. map_of (children r) n = Some a \<and>
            map_of cm n =
              Some (case picker_wrapper (heap r ! a) of
                      None \<Rightarrow> \<lparr>wrapper_name = n, picker = QueuePicker\<rparr>
                    | Some w \<Rightarrow> w)"
    proof
      fix n assume n: "n \<in> fst ` set cfg"
      with cp obtain a where "map_of (children r) n = Some a"
        by (auto simp: configured_present_def)
      moreover from cm(3) n have "map_of cm n = Some (wrapper_for (children r) (heap r) n)"
        by blast
      ultimately show "\<exists>a. map_of (children r) n = Some a \<and>
            map_of cm n =
              Some (case picker_wrapper (heap r ! a) of
                      None \<Rightarrow> \<lparr>wrapper_name = n, picker = QueuePicker\<rparr>
                    | Some w \<Rightarrow> w)"
        by (simp add: wrapper_for_def)
    qed
    with cm(1,2) show ?thesis by blast
  qed
  have 2: "\<forall>r'. UpdateStateLocked r = Inr r' \<longrightarrow> configured_present cfg r"
    using UpdateStateLocked_returns [OF assms] by blast
  from 1 2 show ?thesis by blast
qed

text \<open>The statement at a state of the example run, where no child has reported yet.\<close>

theorem UpdateStateLocked_picker_keys_witness:
  "\<exists>st status cm. UpdateStateLocked router_1 = Inr (publish (st, status, cm) router_1) \<and>
     fst ` set cm = {''A'', ''B''} \<and>
     map_of cm ''A'' = Some \<lparr>wrapper_name = ''A'', picker = QueuePicker\<rparr> \<and>
     map_of cm ''B'' = Some \<lparr>wrapper_name = ''B'', picker = QueuePicker\<rparr>"
  using UpdateStateLocked_picker_keys [OF reachable_1 router_1_facts(3), THEN conjunct1]
    router_1_facts(4)
  by (simp add: example_defs)

text \<open>
  Claim C4. \<^verbatim>\<open>UpdateLocked\<close> on a reachable policy that is not shut down stores the
  configuration and returns with the update-in-progress flag cleared and exactly one more
  publication, whatever the child policies report while they are updated: the publication
  of the state aggregated over the children as they are at the end, with a picker for
  exactly the configured names. The children that the configuration does not name are
  deactivated; each child that it names (the names of a configuration are distinct) is the
  child that was under the name, or a new one, updated and with the reports of its child
  policy written into it. While the flag is set, \<^verbatim>\<open>UpdateStateLocked\<close> returns the
  policy unchanged, and a child callback writes the child and returns.
\<close>

theorem UpdateLocked_publishes_once:
  assumes "reachable r" and "\<not> shutting_down r"
    and "\<forall>e \<in> set (args_config args). reports_ok (reps (fst e))"
  shows "(\<exists>r' cm. UpdateLocked args now reps r = Inr r' \<and>
            config r' = Some (args_config args) \<and> \<not> update_in_progress r' \<and>
            channel_control_helper r' = channel_control_helper r @
              [(aggregate_of (args_config args) (heap r') (children r'),
                aggregated_status (aggregate_of (args_config args) (heap r') (children r')), cm)] \<and>
            fst ` set cm = fst ` set (args_config args) \<and>
            (\<forall>n \<in> fst ` set (args_config args).
               map_of cm n = Some (wrapper_for (children r') (heap r') n)) \<and>
            (\<forall>e \<in> set (children r). e \<in> set (children r') \<and>
               (map_of (args_config args) (fst e) = None \<longrightarrow>
                  heap r' ! snd e = deactivated now (heap r ! snd e))) \<and>
            (distinct (map fst (args_config args)) \<longrightarrow>
               (\<forall>e \<in> set (args_config args). \<exists>a. map_of (children r') (fst e) = Some a \<and>
                  (\<forall>a0. map_of (children r) (fst e) = Some a0 \<longrightarrow> a = a0) \<and>
                  heap r' ! a =
                    updated_child (snd e) (args_addresses args) (args_args args) (reps (fst e))
                      (case map_of (children r) (fst e) of
                         None \<Rightarrow> ClusterChild_new (fst e)
                       | Some a0 \<Rightarrow> heap r ! a0)))) \<and>
         (update_in_progress r0 \<longrightarrow>
            UpdateStateLocked r0 = Inr r0 \<and>
            (\<not> shutting_down r0 \<and> self < length (heap r0) \<longrightarrow>
               Helper_UpdateState state status p self r0 =
                 Inr (set_child self (latch (state, status, p) (heap r0 ! self)) r0)))"
proof -
  from assms(1) have "invariant r" by (rule reachable_invariant)
  from UpdateLocked_result [OF this assms(2,3), of now]
  obtain r' cm where r': "UpdateLocked args now reps r = Inr r'" "invariant r'"
    "config r' = Some (args_config args)"
    "channel_control_helper r' = channel_control_helper r @
       [(aggregate_of (args_config args) (heap r') (children r'),
         aggregated_status (aggregate_of (args_config args) (heap r') (children r')), cm)]"
    "fst ` set cm = fst ` set (args_config args)"
    "\<forall>n \<in> fst ` set (args_config args).
       map_of cm n = Some (wrapper_for (children r') (heap r') n)"
    "\<forall>e \<in> set (children r). e \<in> set (children r') \<and>
       (map_of (args_config args) (fst e) = None \<longrightarrow>
          heap r' ! snd e = deactivated now (heap r ! snd e))"
    "distinct (map fst (args_config args)) \<longrightarrow>
       (\<forall>e \<in> set (args_config args). \<exists>a. map_of (children r') (fst e) = Some a \<and>
          (\<forall>a0. map_of (children r) (fst e) = Some a0 \<longrightarrow> a = a0) \<and>
          heap r' ! a =
            updated_child (snd e) (args_addresses args) (args_args args) (reps (fst e))
              (case map_of (children r) (fst e) of
                 None \<Rightarrow> ClusterChild_new (fst e)
               | Some a0 \<Rightarrow> heap r ! a0))"
    by (elim exE conjE)
  from r'(2) have uip: "\<not> update_in_progress r'" by (simp add: invariant_def)
  have 1: "\<exists>r' cm. UpdateLocked args now reps r = Inr r' \<and>
            config r' = Some (args_config args) \<and> \<not> update_in_progress r' \<and>
            channel_control_helper r' = channel_control_helper r @
              [(aggregate_of (args_config args) (heap r') (children r'),
                aggregated_status (aggregate_of (args_config args) (heap r') (children r')), cm)] \<and>
            fst ` set cm = fst ` set (args_config args) \<and>
            (\<forall>n \<in> fst ` set (args_config args).
               map_of cm n = Some (wrapper_for (children r') (heap r') n)) \<and>
            (\<forall>e \<in> set (children r). e \<in> set (children r') \<and>
               (map_of (args_config args) (fst e) = None \<longrightarrow>
                  heap r' ! snd e = deactivated now (heap r ! snd e))) \<and>
            (distinct (map fst (args_config args)) \<longrightarrow>
               (\<forall>e \<in> set (args_config args). \<exists>a. map_of (children r') (fst e) = Some a \<and>
                  (\<forall>a0. map_of (children r) (fst e) = Some a0 \<longrightarrow> a = a0) \<and>
                  heap r' ! a =
                    updated_child (snd e) (args_addresses args) (args_args args) (reps (fst e))
                      (case map_of (children r) (fst e) of
                         None \<Rightarrow> ClusterChild_new (fst e)
                       | Some a0 \<Rightarrow> heap r ! a0)))"
    by (rule exI [of _ r'], rule exI [of _ cm], intro conjI) (rule r'(1,3,4,5,6,7,8) uip)+
  have 2: "update_in_progress r0 \<longrightarrow>
            UpdateStateLocked r0 = Inr r0 \<and>
            (\<not> shutting_down r0 \<and> self < length (heap r0) \<longrightarrow>
               Helper_UpdateState state status p self r0 =
                 Inr (set_child self (latch (state, status, p) (heap r0 ! self)) r0))"
    by (simp add: UpdateStateLocked_in_progress Helper_UpdateState_in_progress)
  from 1 2 show ?thesis by (rule conjI)
qed

text \<open>
  The statement at a state of the example run: while it is updated, the child policy of A
  reports READY with a picker. Also, a report of B while an update is in progress.
\<close>

theorem UpdateLocked_publishes_once_witness:
  "(\<exists>r'. UpdateLocked (update_args cfg_AB) 5 reports_A router_1 = Inr r' \<and>
      config r' = Some cfg_AB \<and> \<not> update_in_progress r' \<and>
      length (channel_control_helper r') = Suc (length publications_1) \<and>
      map_of (children r') ''A'' = Some 0 \<and>
      heap r' ! 0 =
        live_child ''A'' [''polX'', ''polX''] (Some picker_A) GRPC_CHANNEL_READY
          TimerNotArmed False) \<and>
   UpdateStateLocked (router_1\<lparr>update_in_progress := True\<rparr>) =
     Inr (router_1\<lparr>update_in_progress := True\<rparr>) \<and>
   Helper_UpdateState GRPC_CHANNEL_READY OkStatus QueuePicker (Suc 0)
       (router_1\<lparr>update_in_progress := True\<rparr>) =
     Inr (router_1\<lparr>update_in_progress := True,
            heap := (heap router_1)
              [Suc 0 := live_child ''B'' [''polY''] (Some QueuePicker) GRPC_CHANNEL_READY
                          TimerNotArmed False]\<rparr>)"
proof -
  note t = UpdateLocked_publishes_once [OF reachable_1 router_1_facts(1) reports_A_ok,
      where ?r0.0 = "router_1\<lparr>update_in_progress := True\<rparr>" and now = 5 and self = "Suc 0"
      and state = GRPC_CHANNEL_READY and status = OkStatus and p = QueuePicker]
  from t [THEN conjunct1]
  obtain r' cm where r': "UpdateLocked (update_args cfg_AB) 5 reports_A router_1 = Inr r'"
    "config r' = Some (args_config (update_args cfg_AB))" "\<not> update_in_progress r'"
    "channel_control_helper r' = channel_control_helper router_1 @
       [(aggregate_of (args_config (update_args cfg_AB)) (heap r') (children r'),
         aggregated_status (aggregate_of (args_config (update_args cfg_AB)) (heap r') (children r')),
         cm)]"
    "distinct (map fst (args_config (update_args cfg_AB))) \<longrightarrow>
       (\<forall>e \<in> set (args_config (update_args cfg_AB)).
          \<exists>a. map_of (children r') (fst e) = Some a \<and>
          (\<forall>a0. map_of (children router_1) (fst e) = Some a0 \<longrightarrow> a = a0) \<and>
          heap r' ! a =
            updated_child (snd e) (args_addresses (update_args cfg_AB))
              (args_args (update_args cfg_AB)) (reports_A (fst e))
              (case map_of (children router_1) (fst e) of
                 None \<Rightarrow> ClusterChild_new (fst e)
               | Some a0 \<Rightarrow> heap router_1 ! a0))"
    by (elim exE conjE)
  have c: "config r' = Some cfg_AB" using r'(2) by (simp add: update_args_def)
  have l: "length (channel_control_helper r') = Suc (length publications_1)"
    using r'(4) by (simp add: router_1_facts(2))
  from r'(5) have a: "map_of (children r') ''A'' = Some 0 \<and>
      heap r' ! 0 = updated_child ''polX'' (Inr []) [] (reports_A ''A'') (heap router_1 ! 0)"
    by (auto simp: update_args_def cfg_AB_def router_1_facts(6))
  have u: "updated_child ''polX'' (Inr []) [] (reports_A ''A'') (heap router_1 ! 0) =
           live_child ''A'' [''polX'', ''polX''] (Some picker_A) GRPC_CHANNEL_READY
             TimerNotArmed False"
    by (simp add: updated_child_def latch_def reports_A_def router_1_def live_child_def
        LoadBalancingPolicy_call_def Let_def)
  have 1: "\<exists>r'. UpdateLocked (update_args cfg_AB) 5 reports_A router_1 = Inr r' \<and>
      config r' = Some cfg_AB \<and> \<not> update_in_progress r' \<and>
      length (channel_control_helper r') = Suc (length publications_1) \<and>
      map_of (children r') ''A'' = Some 0 \<and>
      heap r' ! 0 =
        live_child ''A'' [''polX'', ''polX''] (Some picker_A) GRPC_CHANNEL_READY
          TimerNotArmed False"
    using r'(1,3) c l a u by (intro exI [of _ r']) simp
  have lb: "latch (GRPC_CHANNEL_READY, OkStatus, QueuePicker) (heap router_1 ! Suc 0) =
            live_child ''B'' [''polY''] (Some QueuePicker) GRPC_CHANNEL_READY TimerNotArmed False"
    by (simp add: latch_def router_1_def live_child_def Let_def)
  from t [THEN conjunct2]
  have 2: "UpdateStateLocked (router_1\<lparr>update_in_progress := True\<rparr>) =
     Inr (router_1\<lparr>update_in_progress := True\<rparr>) \<and>
   Helper_UpdateState GRPC_CHANNEL_READY OkStatus QueuePicker (Suc 0)
       (router_1\<lparr>update_in_progress := True\<rparr>) =
     Inr (router_1\<lparr>update_in_progress := True,
            heap := (heap router_1)
              [Suc 0 := live_child ''B'' [''polY''] (Some QueuePicker) GRPC_CHANNEL_READY
                          TimerNotArmed False]\<rparr>)"
    using router_1_facts(1) lb by (simp add: set_child_def router_1_def)
  from 1 2 show ?thesis by (rule conjI)
qed

text \<open>
  Claim C5. \<^verbatim>\<open>ClusterPicker::Pick\<close> looks the call's cluster attribute up in its map: when
  the name has an entry, the result is what that entry's picker returns; when it has none, the
  result is a failure whose message holds the requested name between double quotes. The
  function reads the map and the call only.
\<close>

theorem ClusterPicker_Pick_routes:
  "(\<forall>w. map_of cluster_map (GetCallAttribute (call_state args) XdsClusterAttributeTypeName) = Some w \<longrightarrow>
      ClusterPicker_Pick cluster_map args = SubchannelPicker_Pick (picker w) args) \<and>
   (map_of cluster_map (GetCallAttribute (call_state args) XdsClusterAttributeTypeName) = None \<longrightarrow>
      ClusterPicker_Pick cluster_map args =
        Fail (kInternal,
              ''xds cluster manager picker: unknown cluster '' @ [CHR 0x22] @
              GetCallAttribute (call_state args) XdsClusterAttributeTypeName @ [CHR 0x22]))"
  by (simp add: ClusterPicker_Pick_def ChildPickerWrapper_Pick_def InternalError_def
      unknown_cluster_message_def Let_def)

text \<open>The statement at the picker map with A alone, for a call to A and a call to C.\<close>

theorem ClusterPicker_Pick_routes_witness:
  "ClusterPicker_Pick picker_map_A (call_to ''A'') = Complete 1 \<and>
   ClusterPicker_Pick picker_map_A (call_to ''C'') =
     Fail (kInternal, ''xds cluster manager picker: unknown cluster '' @ [CHR 0x22] @ ''C'' @ [CHR 0x22])"
  using ClusterPicker_Pick_routes [of picker_map_A "call_to ''A''"]
    ClusterPicker_Pick_routes [of picker_map_A "call_to ''C''"]
  by (simp add: picker_map_A_def call_to_def GetCallAttribute_def picker_A_def)

text \<open>
  Claim C6. The status that \<^verbatim>\<open>UpdateStateLocked\<close> publishes is Unavailable exactly when the
  published state is TRANSIENT_FAILURE, that is, exactly when every configured child is in
  TRANSIENT_FAILURE, and OK otherwise; and so is the status of every publication made so far.
  The call publishes when every name of the configuration has a child, and only then.
\<close>

theorem UpdateStateLocked_status:
  assumes "reachable r" and "config r = Some cfg"
  shows "(configured_present cfg r \<longrightarrow>
            (\<exists>st status cm. UpdateStateLocked r = Inr (publish (st, status, cm) r) \<and>
               (fst status = kUnavailable) = (st = GRPC_CHANNEL_TRANSIENT_FAILURE) \<and>
               (st \<noteq> GRPC_CHANNEL_TRANSIENT_FAILURE \<longrightarrow> status = OkStatus) \<and>
               (st = GRPC_CHANNEL_TRANSIENT_FAILURE) =
                 (\<forall>e \<in> set (children r). map_of cfg (fst e) \<noteq> None \<longrightarrow>
                    connectivity_state (heap r ! snd e) = GRPC_CHANNEL_TRANSIENT_FAILURE))) \<and>
         (\<forall>r'. UpdateStateLocked r = Inr r' \<longrightarrow> configured_present cfg r) \<and>
         (\<forall>pub \<in> set (channel_control_helper r). publication_ok pub)"
proof -
  from assms(1) have inv: "invariant r" by (rule reachable_invariant)
  then have wf: "wf r" and uip: "\<not> update_in_progress r" by (simp_all add: invariant_def)
  let ?st = "aggregate_of cfg (heap r) (children r)"
  have 1: "\<exists>st status cm. UpdateStateLocked r = Inr (publish (st, status, cm) r) \<and>
               (fst status = kUnavailable) = (st = GRPC_CHANNEL_TRANSIENT_FAILURE) \<and>
               (st \<noteq> GRPC_CHANNEL_TRANSIENT_FAILURE \<longrightarrow> status = OkStatus) \<and>
               (st = GRPC_CHANNEL_TRANSIENT_FAILURE) =
                 (\<forall>e \<in> set (children r). map_of cfg (fst e) \<noteq> None \<longrightarrow>
                    connectivity_state (heap r ! snd e) = GRPC_CHANNEL_TRANSIENT_FAILURE)"
    if cp: "configured_present cfg r"
  proof -
    from UpdateStateLocked_wf [OF wf uip assms(2) cp] obtain cm where cm:
      "UpdateStateLocked r = Inr (publish (?st, aggregated_status ?st, cm) r)"
      by blast
    have a: "(fst (aggregated_status ?st) = kUnavailable) = (?st = GRPC_CHANNEL_TRANSIENT_FAILURE)"
      by (simp add: aggregated_status_def OkStatus_def)
    have b: "?st \<noteq> GRPC_CHANNEL_TRANSIENT_FAILURE \<longrightarrow> aggregated_status ?st = OkStatus"
      by (simp add: aggregated_status_def)
    note c = aggregate_transient_failure [OF wf, of cfg]
    from cm a b c show ?thesis by blast
  qed
  have 2: "\<forall>r'. UpdateStateLocked r = Inr r' \<longrightarrow> configured_present cfg r"
    using UpdateStateLocked_returns [OF assms] by blast
  from inv have 3: "\<forall>pub \<in> set (channel_control_helper r). publication_ok pub"
    by (simp add: invariant_def)
  from 1 2 3 show ?thesis by blast
qed

text \<open>
  The statement at two states of the example run: with B alone configured and failing, and
  with A ready beside it.
\<close>

theorem UpdateStateLocked_status_witness:
  "(\<exists>cm. UpdateStateLocked router_4 =
      Inr (publish (GRPC_CHANNEL_TRANSIENT_FAILURE,
                    (kUnavailable, ''TRANSIENT_FAILURE from XdsClusterManagerLb''), cm) router_4)) \<and>
   (\<exists>cm. UpdateStateLocked router_3 =
      Inr (publish (GRPC_CHANNEL_READY, OkStatus, cm) router_3))"
  using UpdateStateLocked_status [OF reachable_4 router_4_facts(2), THEN conjunct1]
    UpdateStateLocked_status [OF reachable_3 router_3_facts(1), THEN conjunct1]
    router_4_facts(3) router_3_facts(2)
  by (simp add: example_defs operation_defs publish_def)

text \<open>
  Claim C7 fails on the code. In the third example run the removal of A is pending, its
  timer armed for 903000, when the callback of an earlier cancellation runs: it clears the
  pending flag. The update that names A again at 4000, long before the timer expires, then
  finds the flag cleared and leaves the timer armed. The timer expires, its callback erases
  A from \<open>children\<close> while the configuration names it, and the next update creates a second
  child for A, with a new child policy instance. In the second example run the pending flag
  of A is set when the update names A again, and the update clears it; but the timer has
  expired already, and its callback, which runs after the update, erases A all the same.
\<close>

theorem reactivated_child_removed:
  "reachable router_10 \<and> config router_10 = Some cfg_B \<and>
   map_of (children router_10) ''A'' = Some 0 \<and>
   delayed_removal_timer_callback_pending (heap router_10 ! 0) \<and>
   delayed_removal_timer (heap router_10 ! 0) = TimerArmed 903000 \<and>
   work_serializer router_10 = [(0, GRPC_ERROR_CANCELLED)] \<and>
   step (EvRunCallback 0) router_10 = Inr router_11 \<and>
   step (EvUpdate (update_args cfg_AB) 4000 no_reports) router_11 = Inr router_12 \<and>
   map_of (children router_12) ''A'' = Some 0 \<and>
   delayed_removal_timer (heap router_12 ! 0) = TimerArmed 903000 \<and>
   step (EvTimerExpires 0 903000) router_12 = Inr router_13 \<and>
   step (EvRunCallback 0) router_13 = Inr router_14 \<and>
   reachable router_14 \<and> config router_14 = Some cfg_AB \<and>
   map_of (children router_14) ''A'' = None \<and>
   child_policy (heap router_14 ! 0) = None \<and>
   step (EvUpdate (update_args cfg_AB) 904000 no_reports) router_14 = Inr router_15 \<and>
   map_of (children router_15) ''A'' = Some 2 \<and>
   child_policy (heap router_15 ! 2) =
     Some \<lparr>policy_args = [], policy_calls =
       [PolicyUpdateLocked \<lparr>args_addresses = Inr [], args_config = ''polX'', args_args = []\<rparr>]\<rparr> \<and>
   reachable router_6 \<and> map_of (children router_6) ''A'' = Some 0 \<and>
   delayed_removal_timer_callback_pending (heap router_6 ! 0) \<and>
   step (EvUpdate (update_args cfg_AB) 901000 no_reports) router_6 = Inr router_7 \<and>
   map_of (children router_7) ''A'' = Some 0 \<and>
   \<not> delayed_removal_timer_callback_pending (heap router_7 ! 0) \<and>
   step (EvRunCallback 0) router_7 = Inr router_8 \<and>
   config router_8 = Some cfg_AB \<and> map_of (children router_8) ''A'' = None"
proof -
  have "map_of (children router_6) ''A'' = Some 0"
    "delayed_removal_timer_callback_pending (heap router_6 ! 0)"
    by (simp_all add: router_6_def live_child_def)
  moreover have "map_of (children router_7) ''A'' = Some 0"
    "\<not> delayed_removal_timer_callback_pending (heap router_7 ! 0)"
    by (simp_all add: router_7_def live_child_def)
  moreover have "config router_8 = Some cfg_AB" "map_of (children router_8) ''A'' = None"
    by (simp_all add: router_8_def)
  moreover have "config router_10 = Some cfg_B" "map_of (children router_10) ''A'' = Some 0"
    "delayed_removal_timer_callback_pending (heap router_10 ! 0)"
    "delayed_removal_timer (heap router_10 ! 0) = TimerArmed 903000"
    "work_serializer router_10 = [(0, GRPC_ERROR_CANCELLED)]"
    by (simp_all add: router_10_def live_child_def)
  moreover have "map_of (children router_12) ''A'' = Some 0"
    "delayed_removal_timer (heap router_12 ! 0) = TimerArmed 903000"
    by (simp_all add: router_12_def live_child_def)
  moreover have "config router_14 = Some cfg_AB" "map_of (children router_14) ''A'' = None"
    "child_policy (heap router_14 ! 0) = None"
    by (simp_all add: router_14_def dead_child_def)
  moreover have "map_of (children router_15) ''A'' = Some 2"
    "child_policy (heap router_15 ! 2) =
       Some \<lparr>policy_args = [], policy_calls =
         [PolicyUpdateLocked \<lparr>args_addresses = Inr [], args_config = ''polX'', args_args = []\<rparr>]\<rparr>"
    by (simp_all add: router_15_def live_child_def)
  ultimately show ?thesis
    using reachable_10 step_11 step_12 step_13 step_14 reachable_14 step_15
      reachable_6 step_7 step_8
    by simp
qed

text \<open>
  Claim C8 fails on the code. In the second example run the timer of A has expired and its
  callback waits in the work serializer when an update names A again: it clears the pending
  flag and cancels the timer, which has no effect any more. The callback then runs with no
  error and erases A, which is configured and not pending removal. In the third run the
  callback of a cancelled timer is not without effect either: it runs when the timer has
  been armed again, and clears the pending flag that now belongs to the new timer.
\<close>

theorem stale_timer_callback_acts:
  "reachable router_6 \<and> work_serializer router_6 = [(0, OkStatus)] \<and>
   delayed_removal_timer_callback_pending (heap router_6 ! 0) \<and>
   step (EvUpdate (update_args cfg_AB) 901000 no_reports) router_6 = Inr router_7 \<and>
   config router_7 = Some cfg_AB \<and> map_of (children router_7) ''A'' = Some 0 \<and>
   \<not> delayed_removal_timer_callback_pending (heap router_7 ! 0) \<and>
   \<not> shutdown (heap router_7 ! 0) \<and>
   work_serializer router_7 = [(0, OkStatus)] \<and>
   OnDelayedRemovalTimerLocked OkStatus 0 (router_7\<lparr>work_serializer := []\<rparr>) = Inr router_8 \<and>
   step (EvRunCallback 0) router_7 = Inr router_8 \<and>
   children router_8 = [(''B'', 1)] \<and> shutdown (heap router_8 ! 0) \<and>
   reachable router_10 \<and> work_serializer router_10 = [(0, GRPC_ERROR_CANCELLED)] \<and>
   delayed_removal_timer_callback_pending (heap router_10 ! 0) \<and>
   delayed_removal_timer (heap router_10 ! 0) = TimerArmed 903000 \<and>
   OnDelayedRemovalTimerLocked GRPC_ERROR_CANCELLED 0 (router_10\<lparr>work_serializer := []\<rparr>) =
     Inr router_11 \<and>
   step (EvRunCallback 0) router_10 = Inr router_11 \<and>
   children router_11 = children router_10 \<and>
   \<not> delayed_removal_timer_callback_pending (heap router_11 ! 0) \<and>
   delayed_removal_timer (heap router_11 ! 0) = TimerArmed 903000"
proof -
  have "work_serializer router_6 = [(0, OkStatus)]"
    "delayed_removal_timer_callback_pending (heap router_6 ! 0)"
    by (simp_all add: router_6_def live_child_def)
  moreover have "config router_7 = Some cfg_AB" "map_of (children router_7) ''A'' = Some 0"
    "\<not> delayed_removal_timer_callback_pending (heap router_7 ! 0)"
    "\<not> shutdown (heap router_7 ! 0)" "work_serializer router_7 = [(0, OkStatus)]"
    by (simp_all add: router_7_def live_child_def)
  moreover have "OnDelayedRemovalTimerLocked OkStatus 0 (router_7\<lparr>work_serializer := []\<rparr>) =
      Inr router_8"
    using step_8 by (simp add: run_callback_def router_7_def)
  moreover have "children router_8 = [(''B'', 1)]" "shutdown (heap router_8 ! 0)"
    by (simp_all add: router_8_def dead_child_def)
  moreover have "work_serializer router_10 = [(0, GRPC_ERROR_CANCELLED)]"
    "delayed_removal_timer_callback_pending (heap router_10 ! 0)"
    "delayed_removal_timer (heap router_10 ! 0) = TimerArmed 903000"
    by (simp_all add: router_10_def live_child_def)
  moreover have "OnDelayedRemovalTimerLocked GRPC_ERROR_CANCELLED 0
      (router_10\<lparr>work_serializer := []\<rparr>) = Inr router_11"
    using step_11 by (simp add: run_callback_def router_10_def)
  moreover have "children router_11 = children router_10"
    "\<not> delayed_removal_timer_callback_pending (heap router_11 ! 0)"
    "delayed_removal_timer (heap router_11 ! 0) = TimerArmed 903000"
    by (simp_all add: router_10_def router_11_def live_child_def)
  ultimately show ?thesis
    using reachable_6 step_7 step_8 reachable_10 step_11 by simp
qed

text \<open>
  Claim C9, amended. \<^verbatim>\<open>ShutdownLocked\<close> on a reachable policy sets the shutdown flag,
  orphans every child and empties \<open>children\<close>; orphaning a child cancels its timer if its
  pending flag is set, and for a timer that was armed the cancellation callback is handed to
  the work serializer. It keeps the configuration and publishes nothing. On the result,
  \<^verbatim>\<open>ShutdownLocked\<close> again, \<^verbatim>\<open>UpdateLocked\<close>, \<^verbatim>\<open>ExitIdleLocked\<close>,
  \<^verbatim>\<open>ResetBackoffLocked\<close> and \<^verbatim>\<open>Helper::UpdateState\<close> return the policy unchanged.
\<close>

theorem ShutdownLocked_final:
  assumes "reachable r"
  shows "\<exists>r'. ShutdownLocked r = Inr r' \<and> shutting_down r' \<and> children r' = [] \<and>
           config r' = config r \<and> channel_control_helper r' = channel_control_helper r \<and>
           update_in_progress r' = update_in_progress r \<and>
           length (heap r') = length (heap r) \<and>
           (\<forall>a < length (heap r). heap r' ! a =
              (if a \<in> snd ` set (children r) then orphaned (heap r ! a) else heap r ! a)) \<and>
           work_serializer r' = work_serializer r @
             concat (map (\<lambda>e. cancel_callbacks (snd e) (heap r ! snd e)) (children r)) \<and>
           ShutdownLocked r' = Inr r' \<and>
           (\<forall>args now reps. UpdateLocked args now reps r' = Inr r') \<and>
           ExitIdleLocked r' = Inr r' \<and> ResetBackoffLocked r' = Inr r' \<and>
           (\<forall>self st status p. self < length (heap r') \<longrightarrow>
              Helper_UpdateState st status p self r' = Inr r')"
proof -
  from assms have inv: "invariant r" by (rule reachable_invariant)
  let ?ws = "work_serializer r @
               concat (map (\<lambda>e. cancel_callbacks (snd e) (heap r ! snd e)) (children r))"
  from ShutdownLocked_invariant [OF inv] obtain h' where h':
    "ShutdownLocked r =
       Inr (r\<lparr>shutting_down := True, heap := h', children := [], work_serializer := ?ws\<rparr>)"
    "length h' = length (heap r)"
    "\<forall>b < length h'. h' ! b =
       (if b \<in> snd ` set (children r) then orphaned (heap r ! b) else heap r ! b)"
    by (elim exE conjE)
  let ?r' = "r\<lparr>shutting_down := True, heap := h', children := [], work_serializer := ?ws\<rparr>"
  have f: "shutting_down ?r'" "children ?r' = []" "config ?r' = config r"
    "channel_control_helper ?r' = channel_control_helper r"
    "update_in_progress ?r' = update_in_progress r" "work_serializer ?r' = ?ws"
    by simp_all
  have l: "length (heap ?r') = length (heap r)" using h'(2) by simp
  have o: "\<forall>a < length (heap r). heap ?r' ! a =
              (if a \<in> snd ` set (children r) then orphaned (heap r ! a) else heap r ! a)"
    using h'(2,3) by simp
  note n = shut_down_noop [OF f(1,2)]
  show ?thesis
  proof (rule exI [of _ ?r'], intro conjI)
    show "ShutdownLocked r = Inr ?r'" by (rule h'(1))
    show "shutting_down ?r'" by (rule f(1))
    show "children ?r' = []" by (rule f(2))
    show "config ?r' = config r" by (rule f(3))
    show "channel_control_helper ?r' = channel_control_helper r" by (rule f(4))
    show "update_in_progress ?r' = update_in_progress r" by (rule f(5))
    show "length (heap ?r') = length (heap r)" by (rule l)
    show "\<forall>a < length (heap r). heap ?r' ! a =
              (if a \<in> snd ` set (children r) then orphaned (heap r ! a) else heap r ! a)"
      by (rule o)
    show "work_serializer ?r' = ?ws" by (rule f(6))
    show "ShutdownLocked ?r' = Inr ?r'" by (rule n(1))
    show "\<forall>args now reps. UpdateLocked args now reps ?r' = Inr ?r'"
      by (intro allI) (rule n(2))
    show "ExitIdleLocked ?r' = Inr ?r'" by (rule n(3))
    show "ResetBackoffLocked ?r' = Inr ?r'" by (rule n(4))
    show "\<forall>self st status p. self < length (heap ?r') \<longrightarrow>
              Helper_UpdateState st status p self ?r' = Inr ?r'"
      by (intro allI impI) (rule n(5))
  qed
qed

text \<open>
  The statement at a state of the example run: the removal of A is pending and its timer
  armed, so the shutdown cancels it.
\<close>

theorem ShutdownLocked_final_witness:
  "ShutdownLocked router_4 = Inr router_5 \<and> shutting_down router_5 \<and> children router_5 = [] \<and>
   heap router_5 ! 0 = orphaned (heap router_4 ! 0) \<and>
   work_serializer router_5 = [(0, GRPC_ERROR_CANCELLED)] \<and>
   ShutdownLocked router_5 = Inr router_5 \<and>
   UpdateLocked (update_args cfg_AB) 3000 no_reports router_5 = Inr router_5 \<and>
   ExitIdleLocked router_5 = Inr router_5 \<and>
   Helper_UpdateState GRPC_CHANNEL_READY OkStatus picker_A 0 router_5 = Inr router_5"
proof -
  from ShutdownLocked_final [OF reachable_4] obtain r' where r':
    "ShutdownLocked router_4 = Inr r'" "shutting_down r'" "children r' = []"
    "\<forall>a < length (heap router_4). heap r' ! a =
       (if a \<in> snd ` set (children router_4) then orphaned (heap router_4 ! a)
        else heap router_4 ! a)"
    "work_serializer r' = work_serializer router_4 @
       concat (map (\<lambda>e. cancel_callbacks (snd e) (heap router_4 ! snd e)) (children router_4))"
    "ShutdownLocked r' = Inr r'"
    "\<forall>args now reps. UpdateLocked args now reps r' = Inr r'"
    "ExitIdleLocked r' = Inr r'"
    "\<forall>self st status p. self < length (heap r') \<longrightarrow>
       Helper_UpdateState st status p self r' = Inr r'"
    by (elim exE conjE)
  from r'(1) step_5 have eq: "r' = router_5" by simp
  from r'(9) router_5_facts(1)
  have h: "Helper_UpdateState GRPC_CHANNEL_READY OkStatus picker_A 0 router_5 = Inr router_5"
    unfolding eq by blast
  from r'(7)
  have u: "UpdateLocked (update_args cfg_AB) 3000 no_reports router_5 = Inr router_5"
    unfolding eq by blast
  from r'(4) have o: "heap router_5 ! 0 = orphaned (heap router_4 ! 0)"
    unfolding eq by (simp add: router_4_def)
  from r'(5) have w: "work_serializer router_5 = [(0, GRPC_ERROR_CANCELLED)]"
    unfolding eq by (simp add: router_4_def live_child_def cancel_callbacks_def)
  from r'(1,2,3,6,8) h u o w show ?thesis unfolding eq by simp
qed

text \<open>
  Claim C9 as stated fails: \<^verbatim>\<open>ShutdownLocked\<close> does not release the configuration.
\<close>

theorem ShutdownLocked_keeps_config_counterexample:
  "ShutdownLocked router_4 = Inr router_5 \<and> config router_5 = Some cfg_B \<and>
   config router_5 \<noteq> None"
  using step_5 by (simp add: router_5_def)

text \<open>
  Claim C10 fails on the code. At the end of the second and of the third example run the
  configuration names A and \<open>children\<close> has no entry for it: the timer callback has erased
  it. The aggregate recomputation, and with it the next report of the child policy of B,
  ends in the dereference of a null pointer.
\<close>

theorem configured_child_missing:
  "reachable router_8 \<and> config router_8 = Some cfg_AB \<and> \<not> update_in_progress router_8 \<and>
   map_of (children router_8) ''A'' = None \<and>
   UpdateStateLocked router_8 = Inl NullDereference \<and>
   enabled (EvChildState 1 GRPC_CHANNEL_READY OkStatus QueuePicker) router_8 \<and>
   step (EvChildState 1 GRPC_CHANNEL_READY OkStatus QueuePicker) router_8 = Inl NullDereference \<and>
   reachable router_14 \<and> config router_14 = Some cfg_AB \<and> \<not> update_in_progress router_14 \<and>
   map_of (children router_14) ''A'' = None \<and>
   UpdateStateLocked router_14 = Inl NullDereference \<and>
   enabled (EvChildState 1 GRPC_CHANNEL_READY OkStatus QueuePicker) router_14 \<and>
   step (EvChildState 1 GRPC_CHANNEL_READY OkStatus QueuePicker) router_14 = Inl NullDereference"
proof -
  have "config router_8 = Some cfg_AB" "\<not> update_in_progress router_8"
    "map_of (children router_8) ''A'' = None"
    "enabled (EvChildState 1 GRPC_CHANNEL_READY OkStatus QueuePicker) router_8"
    by (simp_all add: router_8_def)
  moreover have "UpdateStateLocked router_8 = Inl NullDereference"
    by (simp add: operation_defs example_defs)
  moreover have "step (EvChildState 1 GRPC_CHANNEL_READY OkStatus QueuePicker) router_8 =
      Inl NullDereference"
    by (simp add: operation_defs example_defs)
  moreover have "config router_14 = Some cfg_AB" "\<not> update_in_progress router_14"
    "map_of (children router_14) ''A'' = None"
    "enabled (EvChildState 1 GRPC_CHANNEL_READY OkStatus QueuePicker) router_14"
    by (simp_all add: router_14_def)
  moreover have "UpdateStateLocked router_14 = Inl NullDereference"
    by (simp add: operation_defs example_defs)
  moreover have "step (EvChildState 1 GRPC_CHANNEL_READY OkStatus QueuePicker) router_14 =
      Inl NullDereference"
    by (simp add: operation_defs example_defs)
  ultimately show ?thesis using reachable_8 reachable_14 by simp
qed


end
